theory Spec2Isabelle
  imports Main "HOL-Library.Word"
begin

section \<open>Solidity preliminaries\<close>

text \<open>
  The contracts are compiled with \<^verbatim>\<open>pragma solidity ^0.8.20\<close>. A \<^verbatim>\<open>uint256\<close> is
  modelled as a natural number together with the checked arithmetic of Solidity 0.8: an
  addition, increment or multiplication whose result does not fit into 256 bits, and a
  subtraction below zero, aborts the call with \<^verbatim>\<open>Panic(0x11)\<close>. A failed \<^verbatim>\<open>require\<close> aborts with its reason string, a
  failed \<^verbatim>\<open>onlyRole\<close> modifier with \<^verbatim>\<open>AccessControlUnauthorizedAccount\<close>. A call that
  aborts leaves the storage as it was, so a call is a function from the storage to either a
  failure or the new storage. Mappings are total functions whose unwritten keys hold the zero
  value. Events carry no state and are left out.
\<close>

type_synonym address = "160 word"
type_synonym bytes32 = "256 word"

datatype role =
    DEFAULT_ADMIN_ROLE | OPERATOR_ROLE | ARBITER_ROLE | DISTRIBUTOR_ROLE | TIMELOCK_ROLE

datatype failure =
    Revert string
  | AccessControlUnauthorizedAccount address role
  | Panic_0x11

definition MAX_UINT256 :: nat where
  "MAX_UINT256 = 2 ^ 256 - 1"

definition checked_add :: "nat \<Rightarrow> nat \<Rightarrow> failure + nat" where
  "checked_add a b = (if a + b \<le> MAX_UINT256 then Inr (a + b) else Inl Panic_0x11)"

definition checked_sub :: "nat \<Rightarrow> nat \<Rightarrow> failure + nat" where
  "checked_sub a b = (if b \<le> a then Inr (a - b) else Inl Panic_0x11)"

definition checked_mul :: "nat \<Rightarrow> nat \<Rightarrow> failure + nat" where
  "checked_mul a b = (if a * b \<le> MAX_UINT256 then Inr (a * b) else Inl Panic_0x11)"

text \<open>
  The token contracts are not part of the repository. The model records the calls by which a
  function moves funds, in the order it makes them: \<open>SafeTransfer token to amount\<close> for
  \<^verbatim>\<open>IERC20(token).safeTransfer(to, amount)\<close>, which pays out of the calling contract,
  \<open>SafeTransferFrom token from to amount\<close> for
  \<^verbatim>\<open>IERC20(token).safeTransferFrom(from, to, amount)\<close>, and \<open>SendValue to amount\<close> for
  \<^verbatim>\<open>to.call{value: amount}("")\<close>. What the token does with a call (it may refuse it, which
  aborts the whole transaction) lies outside the model.
\<close>

datatype transfer =
    SafeTransfer address address nat
  | SafeTransferFrom address address address nat
  | SendValue address nat

section \<open>EpochManager (contracts/ReceiptRegistry.sol)\<close>

record Epoch =
  id_epoch :: nat
  startTime :: nat
  endTime :: nat
  merkleRoot :: bytes32
  finalized :: bool
  totalRewards :: nat

record EpochManager =
  epochDuration :: nat
  currentEpochId :: nat
  epochs :: "nat \<Rightarrow> Epoch"
  roles_EM :: "role \<Rightarrow> address \<Rightarrow> bool"

definition MIN_EPOCH_DURATION :: nat where
  "MIN_EPOCH_DURATION = 86400"

definition MAX_EPOCH_DURATION :: nat where
  "MAX_EPOCH_DURATION = 2592000"

definition zero_Epoch :: Epoch where
  "zero_Epoch = \<lparr>id_epoch = 0, startTime = 0, endTime = 0, merkleRoot = 0,
     finalized = False, totalRewards = 0\<rparr>"

text \<open>The constructor, run by a deployment at block time \<open>now\<close>: the duration's initialiser
  is 7 days, the admin gets both roles, epoch 1 is opened.\<close>

definition constructor_EpochManager :: "address \<Rightarrow> nat \<Rightarrow> failure + EpochManager" where
  "constructor_EpochManager admin now =
     (case checked_add now 604800 of
        Inl e \<Rightarrow> Inl e
      | Inr ending \<Rightarrow>
          Inr \<lparr>epochDuration = 604800,
               currentEpochId = 1,
               epochs = (\<lambda>_. zero_Epoch)(1 :=
                 \<lparr>id_epoch = 1, startTime = now, endTime = ending, merkleRoot = 0,
                  finalized = False, totalRewards = 0\<rparr>),
               roles_EM = (\<lambda>r a. (r = DEFAULT_ADMIN_ROLE \<or> r = OPERATOR_ROLE) \<and> a = admin)\<rparr>)"

definition canAdvanceEpoch :: "EpochManager \<Rightarrow> nat \<Rightarrow> bool" where
  "canAdvanceEpoch s now = (endTime (epochs s (currentEpochId s)) \<le> now)"

definition advanceEpoch :: "EpochManager \<Rightarrow> nat \<Rightarrow> failure + EpochManager" where
  "advanceEpoch s now =
     (if \<not> canAdvanceEpoch s now then Inl (Revert ''Current epoch not ended'')
      else if \<not> finalized (epochs s (currentEpochId s))
        then Inl (Revert ''Current epoch not finalized yet'')
      else case checked_add (currentEpochId s) 1 of
        Inl e \<Rightarrow> Inl e
      | Inr next_id \<Rightarrow>
          (case checked_add now (epochDuration s) of
             Inl e \<Rightarrow> Inl e
           | Inr ending \<Rightarrow>
               Inr (s\<lparr>currentEpochId := next_id,
                      epochs := (epochs s)(next_id :=
                        \<lparr>id_epoch = next_id, startTime = now, endTime = ending,
                         merkleRoot = 0, finalized = False, totalRewards = 0\<rparr>)\<rparr>)))"

definition finalizeEpoch ::
  "EpochManager \<Rightarrow> address \<Rightarrow> nat \<Rightarrow> bytes32 \<Rightarrow> nat \<Rightarrow> failure + EpochManager" where
  "finalizeEpoch s sender epochId root rewards =
     (if \<not> roles_EM s OPERATOR_ROLE sender
        then Inl (AccessControlUnauthorizedAccount sender OPERATOR_ROLE)
      else if \<not> epochId \<le> currentEpochId s then Inl (Revert ''Invalid epoch'')
      else if finalized (epochs s epochId) then Inl (Revert ''Already finalized'')
      else if root = 0 then Inl (Revert ''Invalid merkle root'')
      else Inr (s\<lparr>epochs := (epochs s)(epochId :=
                  (epochs s epochId)\<lparr>merkleRoot := root, totalRewards := rewards,
                                       finalized := True\<rparr>)\<rparr>))"

definition setEpochDuration :: "EpochManager \<Rightarrow> address \<Rightarrow> nat \<Rightarrow> failure + EpochManager" where
  "setEpochDuration s sender duration =
     (if \<not> roles_EM s DEFAULT_ADMIN_ROLE sender
        then Inl (AccessControlUnauthorizedAccount sender DEFAULT_ADMIN_ROLE)
      else if \<not> MIN_EPOCH_DURATION \<le> duration then Inl (Revert ''Duration too short'')
      else if \<not> duration \<le> MAX_EPOCH_DURATION then Inl (Revert ''Duration too long'')
      else Inr (s\<lparr>epochDuration := duration\<rparr>))"

text \<open>A transaction names the caller, the block time and the function called. A transaction
  that aborts changes nothing; a history is a list of transactions applied in order.\<close>

datatype EpochManager_call =
    AdvanceEpoch
  | FinalizeEpoch nat bytes32 nat
  | SetEpochDuration nat

fun call_EpochManager ::
  "EpochManager \<Rightarrow> address \<Rightarrow> nat \<Rightarrow> EpochManager_call \<Rightarrow> failure + EpochManager" where
  "call_EpochManager s sender now AdvanceEpoch = advanceEpoch s now"
| "call_EpochManager s sender now (FinalizeEpoch epochId root rewards) =
     finalizeEpoch s sender epochId root rewards"
| "call_EpochManager s sender now (SetEpochDuration duration) =
     setEpochDuration s sender duration"

definition transact_EpochManager ::
  "EpochManager \<Rightarrow> address \<times> nat \<times> EpochManager_call \<Rightarrow> EpochManager" where
  "transact_EpochManager s tx =
     (case tx of (sender, now, c) \<Rightarrow>
        (case call_EpochManager s sender now c of Inl _ \<Rightarrow> s | Inr s' \<Rightarrow> s'))"

definition run_EpochManager ::
  "EpochManager \<Rightarrow> (address \<times> nat \<times> EpochManager_call) list \<Rightarrow> EpochManager" where
  "run_EpochManager s txs = foldl transact_EpochManager s txs"

definition example_admin :: address where
  "example_admin = 10"

definition example_EpochManager :: EpochManager where
  "example_EpochManager =
     \<lparr>epochDuration = 604800,
      currentEpochId = 1,
      epochs = (\<lambda>_. zero_Epoch)(1 :=
        \<lparr>id_epoch = 1, startTime = 1000, endTime = 605800, merkleRoot = 0,
         finalized = False, totalRewards = 0\<rparr>),
      roles_EM = (\<lambda>r a. (r = DEFAULT_ADMIN_ROLE \<or> r = OPERATOR_ROLE) \<and> a = example_admin)\<rparr>"

definition example_finalized :: EpochManager where
  "example_finalized =
     example_EpochManager\<lparr>epochs := (epochs example_EpochManager)(1 :=
       (epochs example_EpochManager 1)\<lparr>merkleRoot := 5, totalRewards := 100,
                                         finalized := True\<rparr>)\<rparr>"

definition example_history :: "(address \<times> nat \<times> EpochManager_call) list" where
  "example_history =
     [(example_admin, 2000, FinalizeEpoch 1 5 100),
      (77, 3000, AdvanceEpoch),
      (77, 700000, AdvanceEpoch),
      (example_admin, 700001, SetEpochDuration 86400),
      (77, 700002, FinalizeEpoch 2 9 100)]"

section \<open>MerkleDistributor (contracts/XsrnSessionManager.sol)\<close>

text \<open>
  The distributor calls two functions on hashes whose code is outside the repository. They are
  parameters of every function that uses them:
  \<^item> \<open>leafOf account amount\<close> stands for
    \<^verbatim>\<open>keccak256(abi.encodePacked(account, amount))\<close>;
  \<^item> \<open>verifyProof merkleProof merkleRoot leaf\<close> stands for the library call
    \<^verbatim>\<open>MerkleProof.verify(merkleProof, merkleRoot, leaf)\<close>.
  A call returns the new storage together with the token transfers it requests.
\<close>

type_synonym leaf_hash = "address \<Rightarrow> nat \<Rightarrow> bytes32"
type_synonym proof_check = "bytes32 list \<Rightarrow> bytes32 \<Rightarrow> bytes32 \<Rightarrow> bool"

record MerkleDistributor =
  treasury :: address
  epochMerkleRoots :: "nat \<Rightarrow> address \<Rightarrow> bytes32"
  claimed :: "nat \<Rightarrow> address \<Rightarrow> address \<Rightarrow> bool"
  totalClaimed :: "address \<Rightarrow> address \<Rightarrow> nat"
  roles_MD :: "role \<Rightarrow> address \<Rightarrow> bool"

definition constructor_MerkleDistributor ::
  "address \<Rightarrow> address \<Rightarrow> failure + MerkleDistributor" where
  "constructor_MerkleDistributor admin treasury0 =
     (if treasury0 = 0 then Inl (Revert ''Invalid treasury'')
      else Inr \<lparr>treasury = treasury0,
                epochMerkleRoots = (\<lambda>_ _. 0),
                claimed = (\<lambda>_ _ _. False),
                totalClaimed = (\<lambda>_ _. 0),
                roles_MD = (\<lambda>r a. (r = DEFAULT_ADMIN_ROLE \<or> r = OPERATOR_ROLE) \<and> a = admin)\<rparr>)"

definition setMerkleRoot ::
  "MerkleDistributor \<Rightarrow> address \<Rightarrow> nat \<Rightarrow> address \<Rightarrow> bytes32 \<Rightarrow> failure + MerkleDistributor" where
  "setMerkleRoot s sender epochId token root =
     (if \<not> roles_MD s OPERATOR_ROLE sender
        then Inl (AccessControlUnauthorizedAccount sender OPERATOR_ROLE)
      else if root = 0 then Inl (Revert ''Invalid merkle root'')
      else Inr (s\<lparr>epochMerkleRoots :=
                  (epochMerkleRoots s)(epochId := (epochMerkleRoots s epochId)(token := root))\<rparr>))"

definition mark_claimed ::
  "(nat \<Rightarrow> address \<Rightarrow> address \<Rightarrow> bool) \<Rightarrow> nat \<Rightarrow> address \<Rightarrow> address \<Rightarrow>
   (nat \<Rightarrow> address \<Rightarrow> address \<Rightarrow> bool)" where
  "mark_claimed c epochId token account =
     c(epochId := (c epochId)(token := (c epochId token)(account := True)))"

definition add_totalClaimed ::
  "(address \<Rightarrow> address \<Rightarrow> nat) \<Rightarrow> address \<Rightarrow> address \<Rightarrow> nat \<Rightarrow> (address \<Rightarrow> address \<Rightarrow> nat)" where
  "add_totalClaimed t account token new_total = t(account := (t account)(token := new_total))"

definition claim ::
  "leaf_hash \<Rightarrow> proof_check \<Rightarrow> MerkleDistributor \<Rightarrow> address \<Rightarrow> nat \<Rightarrow> address \<Rightarrow> nat \<Rightarrow>
   bytes32 list \<Rightarrow> failure + MerkleDistributor \<times> transfer list" where
  "claim leafOf verifyProof s sender epochId token amount merkleProof =
     (if claimed s epochId token sender then Inl (Revert ''Already claimed'')
      else if epochMerkleRoots s epochId token = 0 then Inl (Revert ''Merkle root not set'')
      else if \<not> verifyProof merkleProof (epochMerkleRoots s epochId token) (leafOf sender amount)
        then Inl (Revert ''Invalid proof'')
      else case checked_add (totalClaimed s sender token) amount of
        Inl e \<Rightarrow> Inl e
      | Inr new_total \<Rightarrow>
          Inr (s\<lparr>claimed := mark_claimed (claimed s) epochId token sender,
                 totalClaimed := add_totalClaimed (totalClaimed s) sender token new_total\<rparr>,
               [SafeTransferFrom token (treasury s) sender amount]))"

text \<open>The loop of \<open>claimMultiple\<close>. After the two length checks the three arrays have one
  length, so the loop over the index \<open>i\<close> reads the triples of the zipped arrays in order. Its
  state is the \<open>claimed\<close> mapping and the running \<open>totalAmount\<close>; \<open>continue\<close> goes on with
  the next triple and the state unchanged.\<close>

fun claimMultiple_loop ::
  "leaf_hash \<Rightarrow> proof_check \<Rightarrow> (nat \<Rightarrow> address \<Rightarrow> bytes32) \<Rightarrow> address \<Rightarrow> address \<Rightarrow>
   (nat \<times> nat \<times> bytes32 list) list \<Rightarrow> (nat \<Rightarrow> address \<Rightarrow> address \<Rightarrow> bool) \<Rightarrow> nat \<Rightarrow>
   failure + (nat \<Rightarrow> address \<Rightarrow> address \<Rightarrow> bool) \<times> nat" where
  "claimMultiple_loop leafOf verifyProof roots sender token [] c totalAmount =
     Inr (c, totalAmount)"
| "claimMultiple_loop leafOf verifyProof roots sender token ((epochId, amount, merkleProof) # rest)
       c totalAmount =
     (if c epochId token sender
        then claimMultiple_loop leafOf verifyProof roots sender token rest c totalAmount
      else if roots epochId token = 0
        then claimMultiple_loop leafOf verifyProof roots sender token rest c totalAmount
      else if \<not> verifyProof merkleProof (roots epochId token) (leafOf sender amount)
        then claimMultiple_loop leafOf verifyProof roots sender token rest c totalAmount
      else case checked_add totalAmount amount of
        Inl e \<Rightarrow> Inl e
      | Inr new_amount \<Rightarrow>
          claimMultiple_loop leafOf verifyProof roots sender token rest
            (mark_claimed c epochId token sender) new_amount)"

definition claimMultiple ::
  "leaf_hash \<Rightarrow> proof_check \<Rightarrow> MerkleDistributor \<Rightarrow> address \<Rightarrow> nat list \<Rightarrow> address \<Rightarrow>
   nat list \<Rightarrow> bytes32 list list \<Rightarrow> failure + MerkleDistributor \<times> transfer list" where
  "claimMultiple leafOf verifyProof s sender epochIds token amounts merkleProofs =
     (if length epochIds \<noteq> length amounts then Inl (Revert ''Length mismatch'')
      else if length epochIds \<noteq> length merkleProofs then Inl (Revert ''Length mismatch'')
      else case claimMultiple_loop leafOf verifyProof (epochMerkleRoots s) sender token
                  (zip epochIds (zip amounts merkleProofs)) (claimed s) 0 of
        Inl e \<Rightarrow> Inl e
      | Inr (c, totalAmount) \<Rightarrow>
          (if 0 < totalAmount
           then (case checked_add (totalClaimed s sender token) totalAmount of
                   Inl e \<Rightarrow> Inl e
                 | Inr new_total \<Rightarrow>
                     Inr (s\<lparr>claimed := c,
                            totalClaimed :=
                              add_totalClaimed (totalClaimed s) sender token new_total\<rparr>,
                          [SafeTransferFrom token (treasury s) sender totalAmount]))
           else Inr (s\<lparr>claimed := c\<rparr>, [])))"

definition isClaimed :: "MerkleDistributor \<Rightarrow> nat \<Rightarrow> address \<Rightarrow> address \<Rightarrow> bool" where
  "isClaimed s epochId token account = claimed s epochId token account"

definition canClaim ::
  "leaf_hash \<Rightarrow> proof_check \<Rightarrow> MerkleDistributor \<Rightarrow> nat \<Rightarrow> address \<Rightarrow> address \<Rightarrow> nat \<Rightarrow>
   bytes32 list \<Rightarrow> bool" where
  "canClaim leafOf verifyProof s epochId token account amount merkleProof =
     (if claimed s epochId token account then False
      else if epochMerkleRoots s epochId token = 0 then False
      else verifyProof merkleProof (epochMerkleRoots s epochId token) (leafOf account amount))"

definition setTreasury :: "MerkleDistributor \<Rightarrow> address \<Rightarrow> address \<Rightarrow> failure + MerkleDistributor" where
  "setTreasury s sender treasury1 =
     (if \<not> roles_MD s DEFAULT_ADMIN_ROLE sender
        then Inl (AccessControlUnauthorizedAccount sender DEFAULT_ADMIN_ROLE)
      else if treasury1 = 0 then Inl (Revert ''Invalid treasury'')
      else Inr (s\<lparr>treasury := treasury1\<rparr>))"

text \<open>Transactions and histories of the distributor; an aborted transaction changes nothing.\<close>

datatype MerkleDistributor_call =
    SetMerkleRoot nat address bytes32
  | Claim nat address nat "bytes32 list"
  | ClaimMultiple "nat list" address "nat list" "bytes32 list list"
  | SetTreasury address

fun call_MerkleDistributor ::
  "leaf_hash \<Rightarrow> proof_check \<Rightarrow> MerkleDistributor \<Rightarrow> address \<Rightarrow> MerkleDistributor_call \<Rightarrow>
   failure + MerkleDistributor" where
  "call_MerkleDistributor leafOf verifyProof s sender (SetMerkleRoot epochId token root) =
     setMerkleRoot s sender epochId token root"
| "call_MerkleDistributor leafOf verifyProof s sender (Claim epochId token amount merkleProof) =
     map_sum id fst (claim leafOf verifyProof s sender epochId token amount merkleProof)"
| "call_MerkleDistributor leafOf verifyProof s sender
       (ClaimMultiple epochIds token amounts merkleProofs) =
     map_sum id fst (claimMultiple leafOf verifyProof s sender epochIds token amounts merkleProofs)"
| "call_MerkleDistributor leafOf verifyProof s sender (SetTreasury treasury1) =
     setTreasury s sender treasury1"

definition transact_MerkleDistributor ::
  "leaf_hash \<Rightarrow> proof_check \<Rightarrow> MerkleDistributor \<Rightarrow> address \<times> MerkleDistributor_call \<Rightarrow>
   MerkleDistributor" where
  "transact_MerkleDistributor leafOf verifyProof s tx =
     (case call_MerkleDistributor leafOf verifyProof s (fst tx) (snd tx) of
        Inl _ \<Rightarrow> s | Inr s' \<Rightarrow> s')"

definition run_MerkleDistributor ::
  "leaf_hash \<Rightarrow> proof_check \<Rightarrow> MerkleDistributor \<Rightarrow> (address \<times> MerkleDistributor_call) list \<Rightarrow>
   MerkleDistributor" where
  "run_MerkleDistributor leafOf verifyProof s txs =
     foldl (transact_MerkleDistributor leafOf verifyProof) s txs"

text \<open>Stand-ins for the two hash functions, used only to run the model on concrete inputs: a
  leaf is the sum of the account and the amount, a proof is checked by adding its elements to
  the leaf. The theorems below hold for every choice of the two functions.\<close>

definition toy_leafOf :: leaf_hash where
  "toy_leafOf account amount = of_nat (unat account + amount)"

definition toy_verifyProof :: proof_check where
  "toy_verifyProof merkleProof root leaf = (foldl (+) leaf merkleProof = root)"

text \<open>A distributor deployed with treasury 20 after \<open>setMerkleRoot 1 30 150\<close>, and the same
  distributor after account 40 has claimed 100 for epoch 1.\<close>

definition example_MerkleDistributor :: MerkleDistributor where
  "example_MerkleDistributor =
     \<lparr>treasury = 20,
      epochMerkleRoots = (\<lambda>_ _. 0)(1 := (\<lambda>_. 0)(30 := 150)),
      claimed = (\<lambda>_ _ _. False),
      totalClaimed = (\<lambda>_ _. 0),
      roles_MD = (\<lambda>r a. (r = DEFAULT_ADMIN_ROLE \<or> r = OPERATOR_ROLE) \<and> a = example_admin)\<rparr>"

definition example_claimed :: MerkleDistributor where
  "example_claimed =
     example_MerkleDistributor
       \<lparr>claimed := mark_claimed (claimed example_MerkleDistributor) 1 30 40,
        totalClaimed := add_totalClaimed (totalClaimed example_MerkleDistributor) 40 30 100\<rparr>"

text \<open>The distributor of the example after the operator has recorded the root 999 for the
  same epoch and token.\<close>

definition example_replaced :: MerkleDistributor where
  "example_replaced =
     example_claimed\<lparr>epochMerkleRoots :=
       (epochMerkleRoots example_claimed)(1 := (epochMerkleRoots example_claimed 1)(30 := 999))\<rparr>"

text \<open>
  The batch as the specification words it, for comparison with the loop: the entries that are
  paid are those that \<open>canClaim\<close> accepts in the state before the batch (not claimed, root
  recorded, proof verifies), an entry counting as already claimed when an earlier paid entry
  of the same batch was for the same epoch. \<open>taken\<close> lists the epochs paid so far.
\<close>

fun eligible_entries ::
  "leaf_hash \<Rightarrow> proof_check \<Rightarrow> MerkleDistributor \<Rightarrow> address \<Rightarrow> address \<Rightarrow> nat list \<Rightarrow>
   (nat \<times> nat \<times> bytes32 list) list \<Rightarrow> (nat \<times> nat \<times> bytes32 list) list" where
  "eligible_entries leafOf verifyProof s sender token taken [] = []"
| "eligible_entries leafOf verifyProof s sender token taken ((epochId, amount, merkleProof) # rest) =
     (if epochId \<notin> set taken \<and>
         canClaim leafOf verifyProof s epochId token sender amount merkleProof
      then (epochId, amount, merkleProof) #
           eligible_entries leafOf verifyProof s sender token (epochId # taken) rest
      else eligible_entries leafOf verifyProof s sender token taken rest)"

definition payout :: "(nat \<times> nat \<times> bytes32 list) list \<Rightarrow> nat" where
  "payout entries = sum_list (map (\<lambda>entry. fst (snd entry)) entries)"

text \<open>A distributor with the root 150 recorded for epochs 1, 2 and 3 of token 30, in which
  account 40 has claimed 100 for epoch 2; and the same distributor after the batch of the
  example below.\<close>

definition example_batch :: MerkleDistributor where
  "example_batch =
     \<lparr>treasury = 20,
      epochMerkleRoots = (\<lambda>_ _. 0)(1 := (\<lambda>_. 0)(30 := 150), 2 := (\<lambda>_. 0)(30 := 150),
                                   3 := (\<lambda>_. 0)(30 := 150)),
      claimed = mark_claimed (\<lambda>_ _ _. False) 2 30 40,
      totalClaimed = (\<lambda>_ _. 0)(40 := (\<lambda>_. 0)(30 := 100)),
      roles_MD = (\<lambda>r a. (r = DEFAULT_ADMIN_ROLE \<or> r = OPERATOR_ROLE) \<and> a = example_admin)\<rparr>"

definition example_batch_paid :: MerkleDistributor where
  "example_batch_paid =
     example_batch
       \<lparr>claimed := (\<lambda>e t a. claimed example_batch e t a \<or>
                        (t = 30 \<and> a = 40 \<and> e \<in> fst ` set [(1, 100 :: nat, [10 :: bytes32])])),
        totalClaimed := add_totalClaimed (totalClaimed example_batch) 40 30 200\<rparr>"

text \<open>The distributor of the first example after account 40 has claimed the largest
  \<^verbatim>\<open>uint256\<close> amount for epoch 1 (the proof \<open>[111]\<close> verifies for that amount) and the
  operator has recorded the root 150 for epoch 2.\<close>

definition example_exhausted :: MerkleDistributor where
  "example_exhausted =
     run_MerkleDistributor toy_leafOf toy_verifyProof example_MerkleDistributor
       [(40, Claim 1 30 MAX_UINT256 [111]), (example_admin, SetMerkleRoot 2 30 150)]"

text \<open>The distributor of the first example after the operator has recorded the root 150 for
  epoch 2 as well; an amount of half the range of \<^verbatim>\<open>uint256\<close>, and the proof that verifies
  for account 40 and that amount under the root 150.\<close>

definition example_two_epochs :: MerkleDistributor where
  "example_two_epochs =
     run_MerkleDistributor toy_leafOf toy_verifyProof example_MerkleDistributor
       [(example_admin, SetMerkleRoot 2 30 150)]"

definition example_half :: nat where
  "example_half = 2 ^ 255"

definition example_half_proof :: "bytes32 list" where
  "example_half_proof = [2 ^ 255 + 110]"

section \<open>XsrnTreasury (contracts/XsrnFeeSplitter.sol)\<close>

record XsrnTreasury =
  watcher :: address
  operator :: address
  publicGoods :: address
  securityReserve :: address
  roles_T :: "role \<Rightarrow> address \<Rightarrow> bool"

definition WATCHER_BPS :: nat where "WATCHER_BPS = 4000"
definition OPERATOR_BPS :: nat where "OPERATOR_BPS = 3000"
definition PUBLIC_GOODS_BPS :: nat where "PUBLIC_GOODS_BPS = 2000"
definition SECURITY_RESERVE_BPS :: nat where "SECURITY_RESERVE_BPS = 1000"

definition constructor_XsrnTreasury :: "address \<Rightarrow> XsrnTreasury" where
  "constructor_XsrnTreasury admin =
     \<lparr>watcher = admin, operator = admin, publicGoods = admin, securityReserve = admin,
      roles_T = (\<lambda>r a. (r = DEFAULT_ADMIN_ROLE \<or> r = TIMELOCK_ROLE) \<and> a = admin)\<rparr>"

text \<open>\<open>_transfer\<close> of the source: nothing for a zero amount, a value call for the native
  token (the zero address), a token transfer otherwise.\<close>

definition transfer_T :: "address \<Rightarrow> address \<Rightarrow> nat \<Rightarrow> transfer list" where
  "transfer_T token to amount =
     (if amount = 0 then []
      else if token = 0 then [SendValue to amount]
      else [SafeTransfer token to amount])"

text \<open>\<open>distributeRewards\<close> reads the balance it distributes from the chain
  (\<^verbatim>\<open>address(this).balance\<close> or \<^verbatim>\<open>balanceOf(address(this))\<close>); the model is given it as
  \<open>totalBalance\<close>. The storage is not written.\<close>

definition distributeRewards ::
  "XsrnTreasury \<Rightarrow> address \<Rightarrow> address \<Rightarrow> nat \<Rightarrow> failure + transfer list" where
  "distributeRewards s sender token totalBalance =
     (if \<not> roles_T s DISTRIBUTOR_ROLE sender
        then Inl (AccessControlUnauthorizedAccount sender DISTRIBUTOR_ROLE)
      else if \<not> 0 < totalBalance then Inl (Revert ''No funds to distribute'')
      else case checked_mul totalBalance WATCHER_BPS of
        Inl e \<Rightarrow> Inl e
      | Inr w \<Rightarrow>
      (case checked_mul totalBalance OPERATOR_BPS of
        Inl e \<Rightarrow> Inl e
      | Inr ope \<Rightarrow>
      (case checked_mul totalBalance PUBLIC_GOODS_BPS of
        Inl e \<Rightarrow> Inl e
      | Inr p \<Rightarrow>
      (let watcherAmount = w div 10000;
           operatorAmount = ope div 10000;
           publicGoodsAmount = p div 10000
       in case checked_sub totalBalance watcherAmount of
            Inl e \<Rightarrow> Inl e
          | Inr r1 \<Rightarrow>
          (case checked_sub r1 operatorAmount of
            Inl e \<Rightarrow> Inl e
          | Inr r2 \<Rightarrow>
          (case checked_sub r2 publicGoodsAmount of
            Inl e \<Rightarrow> Inl e
          | Inr securityReserveAmount \<Rightarrow>
              Inr (transfer_T token (watcher s) watcherAmount @
                   transfer_T token (operator s) operatorAmount @
                   transfer_T token (publicGoods s) publicGoodsAmount @
                   transfer_T token (securityReserve s) securityReserveAmount)))))))"

text \<open>The amount a recorded call moves.\<close>

fun amount_of :: "transfer \<Rightarrow> nat" where
  "amount_of (SafeTransfer token to amount) = amount"
| "amount_of (SafeTransferFrom token from to amount) = amount"
| "amount_of (SendValue to amount) = amount"

text \<open>
  The split as the specification words it, for comparison with the code: the ratios must sum
  to 10000; every share but the last is \<open>total * ratio div 10000\<close>, the last share is the
  total minus the shares before it.
\<close>

definition spec_split :: "nat \<Rightarrow> nat list \<Rightarrow> nat list option" where
  "spec_split totalAmt ratiosBps =
     (if sum_list ratiosBps \<noteq> 10000 then None
      else let prior = map (\<lambda>ratio. totalAmt * ratio div 10000) (butlast ratiosBps)
           in Some (prior @ [totalAmt - sum_list prior]))"


definition example_XsrnTreasury :: XsrnTreasury where
  "example_XsrnTreasury =
     \<lparr>watcher = 61, operator = 62, publicGoods = 63, securityReserve = 64,
      roles_T = (\<lambda>r a. (r = DEFAULT_ADMIN_ROLE \<or> r = TIMELOCK_ROLE) \<and> a = example_admin \<or>
                        r = DISTRIBUTOR_ROLE \<and> a = 70)\<rparr>"

section \<open>AttestationRegistry (contracts/AttestationRegistry.sol)\<close>

datatype AttestationStatus = Pending | Validated | Challenged | Slashed | Withdrawn

record Attestation =
  attester :: address
  contentHash :: bytes32
  bondAmount :: nat
  timestamp :: nat
  challengeDeadline :: nat
  status :: AttestationStatus
  challenger :: address
  challengeReason :: bytes32

record AttestationRegistry =
  bondToken :: address
  minBondAmount :: nat
  challengePeriod :: nat
  slashPercentage :: nat
  attestations :: "bytes32 \<Rightarrow> Attestation"
  attestationIds :: "bytes32 list"
  attesterValidCount :: "address \<Rightarrow> nat"
  attesterSlashCount :: "address \<Rightarrow> nat"
  challengerWinCount :: "address \<Rightarrow> nat"
  roles_AR :: "role \<Rightarrow> address \<Rightarrow> bool"

definition zero_Attestation :: Attestation where
  "zero_Attestation =
     \<lparr>attester = 0, contentHash = 0, bondAmount = 0, timestamp = 0, challengeDeadline = 0,
      status = Pending, challenger = 0, challengeReason = 0\<rparr>"

definition constructor_AttestationRegistry ::
  "address \<Rightarrow> address \<Rightarrow> nat \<Rightarrow> nat \<Rightarrow> nat \<Rightarrow> failure + AttestationRegistry" where
  "constructor_AttestationRegistry admin bondToken0 minBondAmount0 challengePeriod0
       slashPercentage0 =
     (if bondToken0 = 0 then Inl (Revert ''Invalid bond token'')
      else if \<not> slashPercentage0 \<le> 10000 then Inl (Revert ''Invalid slash percentage'')
      else Inr \<lparr>bondToken = bondToken0,
                minBondAmount = minBondAmount0,
                challengePeriod = challengePeriod0,
                slashPercentage = slashPercentage0,
                attestations = (\<lambda>_. zero_Attestation),
                attestationIds = [],
                attesterValidCount = (\<lambda>_. 0),
                attesterSlashCount = (\<lambda>_. 0),
                challengerWinCount = (\<lambda>_. 0),
                roles_AR = (\<lambda>r a. (r = DEFAULT_ADMIN_ROLE \<or> r = ARBITER_ROLE) \<and> a = admin)\<rparr>)"

text \<open>
  \<open>submitAttestation\<close> derives the id as
  \<^verbatim>\<open>keccak256(abi.encodePacked(msg.sender, contentHash, block.timestamp, block.number))\<close>;
  the hash is the parameter \<open>idOf\<close>. \<open>this\<close> is the registry's own address, the recipient
  of the bond. The call returns the new storage, the id and the transfers requested.
\<close>

type_synonym id_hash = "address \<Rightarrow> bytes32 \<Rightarrow> nat \<Rightarrow> nat \<Rightarrow> bytes32"

definition submitAttestation ::
  "id_hash \<Rightarrow> address \<Rightarrow> AttestationRegistry \<Rightarrow> address \<Rightarrow> nat \<Rightarrow> nat \<Rightarrow> bytes32 \<Rightarrow> nat \<Rightarrow>
   failure + AttestationRegistry \<times> bytes32 \<times> transfer list" where
  "submitAttestation idOf this s sender now blockNumber hash bond =
     (if hash = 0 then Inl (Revert ''Invalid content hash'')
      else let attestationId = idOf sender hash now blockNumber in
        if timestamp (attestations s attestationId) \<noteq> 0 then Inl (Revert ''Attestation exists'')
        else if 0 < bond \<and> \<not> minBondAmount s \<le> bond then Inl (Revert ''Bond too low'')
        else case checked_add now (challengePeriod s) of
          Inl e \<Rightarrow> Inl e
        | Inr deadline \<Rightarrow>
            Inr (s\<lparr>attestations := (attestations s)(attestationId :=
                       \<lparr>attester = sender, contentHash = hash, bondAmount = bond,
                        timestamp = now, challengeDeadline = deadline, status = Pending,
                        challenger = 0, challengeReason = 0\<rparr>),
                     attestationIds := attestationIds s @ [attestationId]\<rparr>,
                 attestationId,
                 if 0 < bond then [SafeTransferFrom (bondToken s) sender this bond] else []))"

definition challenge ::
  "AttestationRegistry \<Rightarrow> address \<Rightarrow> nat \<Rightarrow> bytes32 \<Rightarrow> bytes32 \<Rightarrow> failure + AttestationRegistry" where
  "challenge s sender now attestationId reason =
     (let att = attestations s attestationId in
      if timestamp att = 0 then Inl (Revert ''Attestation not found'')
      else if status att \<noteq> Pending then Inl (Revert ''Not challengeable'')
      else if \<not> now \<le> challengeDeadline att then Inl (Revert ''Challenge period ended'')
      else if sender = attester att then Inl (Revert ''Cannot self-challenge'')
      else Inr (s\<lparr>attestations := (attestations s)(attestationId :=
                  att\<lparr>status := Challenged, challenger := sender,
                      challengeReason := reason\<rparr>)\<rparr>))"

definition arbitrate ::
  "AttestationRegistry \<Rightarrow> address \<Rightarrow> bytes32 \<Rightarrow> bool \<Rightarrow>
   failure + AttestationRegistry \<times> transfer list" where
  "arbitrate s sender attestationId challengeSucceeded =
     (let att = attestations s attestationId in
      if \<not> roles_AR s ARBITER_ROLE sender
        then Inl (AccessControlUnauthorizedAccount sender ARBITER_ROLE)
      else if status att \<noteq> Challenged then Inl (Revert ''Not in challenge'')
      else if challengeSucceeded then
        (case checked_add (attesterSlashCount s (attester att)) 1 of
           Inl e \<Rightarrow> Inl e
         | Inr slashCount \<Rightarrow>
        (case checked_add (challengerWinCount s (challenger att)) 1 of
           Inl e \<Rightarrow> Inl e
         | Inr winCount \<Rightarrow>
        (case checked_mul (bondAmount att) (slashPercentage s) of
           Inl e \<Rightarrow> Inl e
         | Inr product \<Rightarrow>
        (let slashAmount = product div 10000 in
         case checked_sub (bondAmount att) slashAmount of
           Inl e \<Rightarrow> Inl e
         | Inr refundAmount \<Rightarrow>
             Inr (s\<lparr>attestations := (attestations s)(attestationId := att\<lparr>status := Slashed\<rparr>),
                    attesterSlashCount := (attesterSlashCount s)(attester att := slashCount),
                    challengerWinCount := (challengerWinCount s)(challenger att := winCount)\<rparr>,
                  (if 0 < slashAmount
                   then [SafeTransfer (bondToken s) (challenger att) slashAmount] else []) @
                  (if 0 < refundAmount
                   then [SafeTransfer (bondToken s) (attester att) refundAmount] else []))))))
      else
        (case checked_add (attesterValidCount s (attester att)) 1 of
           Inl e \<Rightarrow> Inl e
         | Inr validCount \<Rightarrow>
             Inr (s\<lparr>attestations := (attestations s)(attestationId := att\<lparr>status := Validated\<rparr>),
                    attesterValidCount := (attesterValidCount s)(attester att := validCount)\<rparr>,
                  [])))"

definition validate :: "AttestationRegistry \<Rightarrow> nat \<Rightarrow> bytes32 \<Rightarrow> failure + AttestationRegistry" where
  "validate s now attestationId =
     (let att = attestations s attestationId in
      if status att \<noteq> Pending then Inl (Revert ''Not pending'')
      else if \<not> challengeDeadline att < now then Inl (Revert ''Challenge period not ended'')
      else case checked_add (attesterValidCount s (attester att)) 1 of
        Inl e \<Rightarrow> Inl e
      | Inr validCount \<Rightarrow>
          Inr (s\<lparr>attestations := (attestations s)(attestationId := att\<lparr>status := Validated\<rparr>),
                 attesterValidCount := (attesterValidCount s)(attester att := validCount)\<rparr>))"

definition withdrawBond ::
  "AttestationRegistry \<Rightarrow> address \<Rightarrow> bytes32 \<Rightarrow> failure + AttestationRegistry \<times> transfer list" where
  "withdrawBond s sender attestationId =
     (let att = attestations s attestationId in
      if sender \<noteq> attester att then Inl (Revert ''Not attester'')
      else if status att \<noteq> Validated then Inl (Revert ''Not validated'')
      else if \<not> 0 < bondAmount att then Inl (Revert ''No bond'')
      else Inr (s\<lparr>attestations := (attestations s)(attestationId :=
                  att\<lparr>bondAmount := 0, status := Withdrawn\<rparr>)\<rparr>,
                [SafeTransfer (bondToken s) sender (bondAmount att)]))"

definition getAttestation :: "AttestationRegistry \<Rightarrow> bytes32 \<Rightarrow> Attestation" where
  "getAttestation s attestationId = attestations s attestationId"

definition setMinBondAmount ::
  "AttestationRegistry \<Rightarrow> address \<Rightarrow> nat \<Rightarrow> failure + AttestationRegistry" where
  "setMinBondAmount s sender amount =
     (if \<not> roles_AR s DEFAULT_ADMIN_ROLE sender
        then Inl (AccessControlUnauthorizedAccount sender DEFAULT_ADMIN_ROLE)
      else Inr (s\<lparr>minBondAmount := amount\<rparr>))"

definition setChallengePeriod ::
  "AttestationRegistry \<Rightarrow> address \<Rightarrow> nat \<Rightarrow> failure + AttestationRegistry" where
  "setChallengePeriod s sender period =
     (if \<not> roles_AR s DEFAULT_ADMIN_ROLE sender
        then Inl (AccessControlUnauthorizedAccount sender DEFAULT_ADMIN_ROLE)
      else Inr (s\<lparr>challengePeriod := period\<rparr>))"

definition setSlashPercentage ::
  "AttestationRegistry \<Rightarrow> address \<Rightarrow> nat \<Rightarrow> failure + AttestationRegistry" where
  "setSlashPercentage s sender percentage =
     (if \<not> roles_AR s DEFAULT_ADMIN_ROLE sender
        then Inl (AccessControlUnauthorizedAccount sender DEFAULT_ADMIN_ROLE)
      else if \<not> percentage \<le> 10000 then Inl (Revert ''Invalid percentage'')
      else Inr (s\<lparr>slashPercentage := percentage\<rparr>))"

text \<open>Transactions and histories of the registry. A transaction names the caller, the block
  time and number, and the function called; one that aborts changes nothing.\<close>

datatype AttestationRegistry_call =
    SubmitAttestation bytes32 nat
  | Challenge bytes32 bytes32
  | Arbitrate bytes32 bool
  | Validate bytes32
  | WithdrawBond bytes32
  | SetMinBondAmount nat
  | SetChallengePeriod nat
  | SetSlashPercentage nat

fun call_AttestationRegistry ::
  "id_hash \<Rightarrow> address \<Rightarrow> AttestationRegistry \<Rightarrow> address \<Rightarrow> nat \<Rightarrow> nat \<Rightarrow>
   AttestationRegistry_call \<Rightarrow> failure + AttestationRegistry" where
  "call_AttestationRegistry idOf this s sender now blockNumber (SubmitAttestation hash bond) =
     map_sum id fst (submitAttestation idOf this s sender now blockNumber hash bond)"
| "call_AttestationRegistry idOf this s sender now blockNumber (Challenge attestationId reason) =
     challenge s sender now attestationId reason"
| "call_AttestationRegistry idOf this s sender now blockNumber (Arbitrate attestationId ok) =
     map_sum id fst (arbitrate s sender attestationId ok)"
| "call_AttestationRegistry idOf this s sender now blockNumber (Validate attestationId) =
     validate s now attestationId"
| "call_AttestationRegistry idOf this s sender now blockNumber (WithdrawBond attestationId) =
     map_sum id fst (withdrawBond s sender attestationId)"
| "call_AttestationRegistry idOf this s sender now blockNumber (SetMinBondAmount amount) =
     setMinBondAmount s sender amount"
| "call_AttestationRegistry idOf this s sender now blockNumber (SetChallengePeriod period) =
     setChallengePeriod s sender period"
| "call_AttestationRegistry idOf this s sender now blockNumber (SetSlashPercentage percentage) =
     setSlashPercentage s sender percentage"

definition transact_AttestationRegistry ::
  "id_hash \<Rightarrow> address \<Rightarrow> AttestationRegistry \<Rightarrow>
   address \<times> nat \<times> nat \<times> AttestationRegistry_call \<Rightarrow> AttestationRegistry" where
  "transact_AttestationRegistry idOf this s tx =
     (case tx of (sender, now, blockNumber, c) \<Rightarrow>
        (case call_AttestationRegistry idOf this s sender now blockNumber c of
           Inl _ \<Rightarrow> s | Inr s' \<Rightarrow> s'))"

definition run_AttestationRegistry ::
  "id_hash \<Rightarrow> address \<Rightarrow> AttestationRegistry \<Rightarrow>
   (address \<times> nat \<times> nat \<times> AttestationRegistry_call) list \<Rightarrow> AttestationRegistry" where
  "run_AttestationRegistry idOf this s txs =
     foldl (transact_AttestationRegistry idOf this) s txs"

text \<open>The transitions of an attestation's status that the specification lists.\<close>

inductive allowed_transition :: "AttestationStatus \<Rightarrow> AttestationStatus \<Rightarrow> bool" where
  "allowed_transition Pending Challenged"
| "allowed_transition Pending Validated"
| "allowed_transition Challenged Slashed"
| "allowed_transition Challenged Validated"
| "allowed_transition Validated Withdrawn"

code_pred allowed_transition .

text \<open>A stand-in for the id hash, used only to run the model on concrete inputs, and a registry
  (bond token 30, minimum bond 50, challenge period 1000, slash percentage 5000) in the states
  of one attestation's life: submitted by account 40 at time 100 with a bond of 101 under the
  id 148, then challenged by account 41, or validated, withdrawn, slashed.\<close>

definition toy_idOf :: id_hash where
  "toy_idOf sender hash now blockNumber = of_nat (unat sender + unat hash + now + blockNumber)"

definition example_registry :: AttestationRegistry where
  "example_registry =
     \<lparr>bondToken = 30, minBondAmount = 50, challengePeriod = 1000, slashPercentage = 5000,
      attestations = (\<lambda>_. zero_Attestation),
      attestationIds = [],
      attesterValidCount = (\<lambda>_. 0),
      attesterSlashCount = (\<lambda>_. 0),
      challengerWinCount = (\<lambda>_. 0),
      roles_AR = (\<lambda>r a. (r = DEFAULT_ADMIN_ROLE \<or> r = ARBITER_ROLE) \<and> a = example_admin)\<rparr>"

definition example_attestation :: Attestation where
  "example_attestation =
     \<lparr>attester = 40, contentHash = 7, bondAmount = 101, timestamp = 100,
      challengeDeadline = 1100, status = Pending, challenger = 0, challengeReason = 0\<rparr>"

definition example_submitted :: AttestationRegistry where
  "example_submitted =
     example_registry\<lparr>attestations := (attestations example_registry)(148 := example_attestation),
                       attestationIds := [148]\<rparr>"

definition example_challenged :: AttestationRegistry where
  "example_challenged =
     example_submitted\<lparr>attestations := (attestations example_submitted)(148 :=
       example_attestation\<lparr>status := Challenged, challenger := 41, challengeReason := 9\<rparr>)\<rparr>"

definition example_validated :: AttestationRegistry where
  "example_validated =
     example_submitted\<lparr>attestations := (attestations example_submitted)(148 :=
       example_attestation\<lparr>status := Validated\<rparr>),
       attesterValidCount := (attesterValidCount example_submitted)(40 := 1)\<rparr>"

definition example_withdrawn :: AttestationRegistry where
  "example_withdrawn =
     example_validated\<lparr>attestations := (attestations example_validated)(148 :=
       example_attestation\<lparr>bondAmount := 0, status := Withdrawn\<rparr>)\<rparr>"

definition example_attestation_history ::
  "(address \<times> nat \<times> nat \<times> AttestationRegistry_call) list" where
  "example_attestation_history =
     [(41, 200, 2, Challenge 148 9),
      (example_admin, 300, 3, Arbitrate 148 False),
      (41, 350, 4, Challenge 148 9),
      (40, 400, 5, WithdrawBond 148),
      (40, 500, 6, WithdrawBond 148)]"

definition example_slashed :: AttestationRegistry where
  "example_slashed =
     example_challenged\<lparr>attestations := (attestations example_challenged)(148 :=
       example_attestation\<lparr>status := Slashed, challenger := 41, challengeReason := 9\<rparr>),
       attesterSlashCount := (attesterSlashCount example_challenged)(40 := 1),
       challengerWinCount := (challengerWinCount example_challenged)(41 := 1)\<rparr>"

text \<open>The registry of the example after account 40 has submitted, at time 100 in block 1, the
  content hash 7 with a bond of \<open>2 ^ 255\<close> (the id is again 148) and account 41 has challenged
  it.\<close>

definition example_large_bond :: AttestationRegistry where
  "example_large_bond =
     run_AttestationRegistry toy_idOf 99 example_registry
       [(40, 100, 1, SubmitAttestation 7 (2 ^ 255)), (41, 200, 2, Challenge 148 9)]"

section \<open>MerkleGenerator (src/services/merkle-generator.ts)\<close>

text \<open>
  The generator works on hex strings: addresses, 32-byte hashes and byte strings. The model
  takes an address as a 160-bit word and a hash as a 256-bit word; the order of the words is
  the order of the 32-byte values and of their lowercase hex strings, which is how both the
  tree library and \<open>verify\<close> compare hashes. \<open>keccak256\<close> is a parameter.
  The strings that \<^verbatim>\<open>ethers.keccak256\<close> and the tree library return, and so every root
  and proof that \<open>generate\<close> produces, are in lower case, and these are the inputs the
  model covers. \<open>verify\<close> compares strings (\<^verbatim>\<open>===\<close> and \<^verbatim>\<open><\<close>): a root or a proof
  element written with upper-case digits denotes the same hash and is nevertheless compared
  as a different string by the code; such inputs are not inputs of the model.
  \<open>abi_encode\<close> is \<^verbatim>\<open>AbiCoder.defaultAbiCoder().encode(['address', 'uint256'], ...)\<close>: two
  32-byte words, and an error for an amount outside \<^verbatim>\<open>uint256\<close>.
\<close>

type_synonym bytes = "8 word list"
type_synonym keccak = "bytes \<Rightarrow> bytes32"

datatype js_error = Encoding_out_of_bounds | Tree_error string

definition to_bytes32 :: "bytes32 \<Rightarrow> bytes" where
  "to_bytes32 w = map (\<lambda>i. ucast (drop_bit (8 * (31 - i)) w)) [0..<32]"

definition abi_words :: "address \<Rightarrow> int \<Rightarrow> bytes" where
  "abi_words account amount = to_bytes32 (ucast account) @ to_bytes32 (word_of_int amount)"

definition abi_encode :: "address \<Rightarrow> int \<Rightarrow> js_error + bytes" where
  "abi_encode account amount =
     (if 0 \<le> amount \<and> amount < 2 ^ 256 then Inr (abi_words account amount)
      else Inl Encoding_out_of_bounds)"

record RewardEntry =
  entry_address :: address
  entry_amount :: int
  entry_epochId :: nat

record MerkleTreeResult =
  result_root :: bytes32
  result_proofs :: "address \<rightharpoonup> bytes32 list"
  result_entries :: "RewardEntry list"

subsection \<open>The tree library\<close>

text \<open>
  \<open>generate\<close> builds its tree with \<^verbatim>\<open>StandardMerkleTree.of\<close> of the package
  \<^verbatim>\<open>@openzeppelin/merkle-tree\<close>, which the repository imports and does not contain. The
  definitions of this subsection follow the package as published: a leaf is the hash of the
  hash of the ABI encoding of the value (\<open>standardLeafHash\<close>), two nodes are hashed in sorted
  order (\<open>hashPair\<close>), the leaves are sorted by hash and laid out from the end of the array
  of nodes, node \<open>i\<close> is the hash of its children \<open>2 * i + 1\<close> and \<open>2 * i + 2\<close>, a proof
  lists the siblings from the leaf up to the root, and \<open>getProof\<close> checks the proof it
  returns against the root.
\<close>

definition standardLeafHash :: "keccak \<Rightarrow> address \<Rightarrow> int \<Rightarrow> js_error + bytes32" where
  "standardLeafHash keccak256 account amount =
     (case abi_encode account amount of
        Inl e \<Rightarrow> Inl e
      | Inr encoded \<Rightarrow> Inr (keccak256 (to_bytes32 (keccak256 encoded))))"

definition hashPair :: "keccak \<Rightarrow> bytes32 \<Rightarrow> bytes32 \<Rightarrow> bytes32" where
  "hashPair keccak256 a b = keccak256 (to_bytes32 (min a b) @ to_bytes32 (max a b))"

definition leftChildIndex :: "nat \<Rightarrow> nat" where "leftChildIndex i = 2 * i + 1"
definition rightChildIndex :: "nat \<Rightarrow> nat" where "rightChildIndex i = 2 * i + 2"
definition parentIndex :: "nat \<Rightarrow> nat" where "parentIndex i = (i - 1) div 2"
definition siblingIndex :: "nat \<Rightarrow> nat" where
  "siblingIndex i = (if even i then i - 1 else i + 1)"

definition hashNode :: "keccak \<Rightarrow> bytes32 list \<Rightarrow> nat \<Rightarrow> bytes32 list" where
  "hashNode keccak256 tree i =
     tree[i := hashPair keccak256 (tree ! leftChildIndex i) (tree ! rightChildIndex i)]"

definition makeMerkleTree :: "keccak \<Rightarrow> bytes32 list \<Rightarrow> js_error + bytes32 list" where
  "makeMerkleTree keccak256 leaves =
     (if leaves = [] then Inl (Tree_error ''Expected non-zero number of leaves'')
      else Inr (foldl (hashNode keccak256)
                  (replicate (length leaves - 1) 0 @ rev leaves)
                  (rev [0..<length leaves - 1])))"

function getProof_tree :: "bytes32 list \<Rightarrow> nat \<Rightarrow> bytes32 list" where
  "getProof_tree tree index =
     (if 0 < index then tree ! siblingIndex index # getProof_tree tree (parentIndex index)
      else [])"
  by pat_completeness auto
termination
  by (relation "measure snd") (auto simp: parentIndex_def)

definition processProof :: "keccak \<Rightarrow> bytes32 \<Rightarrow> bytes32 list \<Rightarrow> bytes32" where
  "processProof keccak256 leaf merkleProof = foldl (hashPair keccak256) leaf merkleProof"

record StandardMerkleTree =
  tree_nodes :: "bytes32 list"
  tree_index :: "nat list"

fun leafHashes :: "keccak \<Rightarrow> (address \<times> int) list \<Rightarrow> js_error + bytes32 list" where
  "leafHashes keccak256 [] = Inr []"
| "leafHashes keccak256 ((account, amount) # rest) =
     (case standardLeafHash keccak256 account amount of
        Inl e \<Rightarrow> Inl e
      | Inr h \<Rightarrow>
          (case leafHashes keccak256 rest of Inl e \<Rightarrow> Inl e | Inr hs \<Rightarrow> Inr (h # hs)))"

definition leafIndexOf :: "(bytes32 \<times> nat) list \<Rightarrow> nat \<Rightarrow> nat" where
  "leafIndexOf hashedValues valueIndex =
     length (takeWhile (\<lambda>hv. snd hv \<noteq> valueIndex) hashedValues)"

definition StandardMerkleTree_of ::
  "keccak \<Rightarrow> (address \<times> int) list \<Rightarrow> js_error + StandardMerkleTree" where
  "StandardMerkleTree_of keccak256 vals =
     (case leafHashes keccak256 vals of
        Inl e \<Rightarrow> Inl e
      | Inr hashes \<Rightarrow>
          (let hashedValues = sort_key fst (zip hashes [0..<length vals]) in
           case makeMerkleTree keccak256 (map fst hashedValues) of
             Inl e \<Rightarrow> Inl e
           | Inr nodes \<Rightarrow>
               Inr \<lparr>tree_nodes = nodes,
                    tree_index = map (\<lambda>valueIndex.
                      length nodes - leafIndexOf hashedValues valueIndex - 1)
                      [0..<length vals]\<rparr>))"

definition tree_root :: "StandardMerkleTree \<Rightarrow> bytes32" where
  "tree_root t = tree_nodes t ! 0"

definition tree_getProof :: "keccak \<Rightarrow> StandardMerkleTree \<Rightarrow> nat \<Rightarrow> js_error + bytes32 list" where
  "tree_getProof keccak256 t i =
     (let treeIndex = tree_index t ! i;
          merkleProof = getProof_tree (tree_nodes t) treeIndex
      in if processProof keccak256 (tree_nodes t ! treeIndex) merkleProof \<noteq> tree_root t
         then Inl (Tree_error ''Unable to prove value'')
         else Inr merkleProof)"

subsection \<open>generate, getProof and verify\<close>

text \<open>\<open>collect_proofs\<close> is the loop of \<open>generate\<close> that stores, for each reward in turn, the
  proof of its index under its address; a later reward with the same address replaces the
  earlier proof.\<close>

fun collect_proofs ::
  "keccak \<Rightarrow> StandardMerkleTree \<Rightarrow> RewardEntry list \<Rightarrow> nat \<Rightarrow> (address \<rightharpoonup> bytes32 list) \<Rightarrow>
   js_error + (address \<rightharpoonup> bytes32 list)" where
  "collect_proofs keccak256 t [] i proofs = Inr proofs"
| "collect_proofs keccak256 t (r # rest) i proofs =
     (case tree_getProof keccak256 t i of
        Inl e \<Rightarrow> Inl e
      | Inr merkleProof \<Rightarrow>
          collect_proofs keccak256 t rest (i + 1) (proofs(entry_address r \<mapsto> merkleProof)))"

definition generate :: "keccak \<Rightarrow> RewardEntry list \<Rightarrow> js_error + MerkleTreeResult" where
  "generate keccak256 rewards =
     (if length rewards = 0
      then Inr \<lparr>result_root = 0, result_proofs = Map.empty, result_entries = []\<rparr>
      else case StandardMerkleTree_of keccak256
                  (map (\<lambda>r. (entry_address r, entry_amount r)) rewards) of
        Inl e \<Rightarrow> Inl e
      | Inr t \<Rightarrow>
          (case collect_proofs keccak256 t rewards 0 Map.empty of
             Inl e \<Rightarrow> Inl e
           | Inr proofs \<Rightarrow>
               Inr \<lparr>result_root = tree_root t, result_proofs = proofs,
                    result_entries = rewards\<rparr>))"

definition getProof :: "MerkleTreeResult \<Rightarrow> address \<Rightarrow> bytes32 list option" where
  "getProof result account = result_proofs result account"

definition verify :: "keccak \<Rightarrow> bytes32 \<Rightarrow> address \<Rightarrow> int \<Rightarrow> bytes32 list \<Rightarrow> js_error + bool" where
  "verify keccak256 root account amount merkleProof =
     (case abi_encode account amount of
        Inl e \<Rightarrow> Inl e
      | Inr encoded \<Rightarrow>
          Inr (foldl (\<lambda>computedHash proofElement.
                   if computedHash < proofElement
                   then keccak256 (to_bytes32 computedHash @ to_bytes32 proofElement)
                   else keccak256 (to_bytes32 proofElement @ to_bytes32 computedHash))
                 (keccak256 encoded) merkleProof = root))"


text \<open>One reward entry, and its ABI encoding.\<close>

definition example_entry :: RewardEntry where
  "example_entry = \<lparr>entry_address = 1, entry_amount = 100, entry_epochId = 1\<rparr>"

definition example_encoded :: bytes where
  "example_encoded = abi_words 1 100"

text \<open>A stand-in for the hash, used only to run the model on concrete inputs: one more than
  the sum of the bytes.\<close>

definition toy_keccak256 :: keccak where
  "toy_keccak256 bs = of_nat (sum_list (map unat bs)) + 1"

section \<open>Epoch ordering\<close>

lemma example_EpochManager_constructed:
  "constructor_EpochManager example_admin 1000 = Inr example_EpochManager"
  by (simp add: constructor_EpochManager_def example_EpochManager_def checked_add_def
      MAX_UINT256_def)

text \<open>
  Claim C3. In every state of the epoch manager: \<open>advanceEpoch\<close> fails while the current
  epoch is not finalized, at whatever block time it is called (before the end with
  "Current epoch not ended", from the end on with "Current epoch not finalized yet"); once
  \<open>finalizeEpoch\<close> has succeeded for an epoch, every later \<open>finalizeEpoch\<close> for that epoch
  fails whatever root, rewards and caller it is given (for an operator with
  "Already finalized"); \<open>finalizeEpoch\<close> fails for the zero root; and it fails for every
  epoch id above the current one (for an operator with "Invalid epoch").
\<close>

theorem epoch_ordering:
  "(\<not> finalized (epochs s (currentEpochId s)) \<longrightarrow>
      advanceEpoch s now =
        Inl (Revert (if endTime (epochs s (currentEpochId s)) \<le> now
                     then ''Current epoch not finalized yet''
                     else ''Current epoch not ended''))) \<and>
   (finalizeEpoch s sender epochId root rewards = Inr s' \<longrightarrow>
      finalizeEpoch s' sender2 epochId root2 rewards2 =
        Inl (if roles_EM s' OPERATOR_ROLE sender2 then Revert ''Already finalized''
             else AccessControlUnauthorizedAccount sender2 OPERATOR_ROLE)) \<and>
   isl (finalizeEpoch s sender epochId 0 rewards) \<and>
   (currentEpochId s < epochId \<longrightarrow>
      finalizeEpoch s sender epochId root rewards =
        Inl (if roles_EM s OPERATOR_ROLE sender then Revert ''Invalid epoch''
             else AccessControlUnauthorizedAccount sender OPERATOR_ROLE))"
  by (auto simp: advanceEpoch_def canAdvanceEpoch_def finalizeEpoch_def split: if_splits)

theorem epoch_ordering_witness:
  "\<not> finalized (epochs example_EpochManager (currentEpochId example_EpochManager)) \<and>
   advanceEpoch example_EpochManager 99999999 = Inl (Revert ''Current epoch not finalized yet'') \<and>
   finalizeEpoch example_EpochManager example_admin 1 5 100 = Inr example_finalized \<and>
   finalizeEpoch example_finalized example_admin 1 7 100 = Inl (Revert ''Already finalized'') \<and>
   isl (finalizeEpoch example_EpochManager example_admin 1 0 100) \<and>
   currentEpochId example_EpochManager < 2 \<and>
   finalizeEpoch example_EpochManager example_admin 2 5 100 = Inl (Revert ''Invalid epoch'')"
proof -
  have fin: "finalizeEpoch example_EpochManager example_admin 1 5 100 = Inr example_finalized"
    by (simp add: finalizeEpoch_def example_EpochManager_def example_finalized_def)
  have op: "roles_EM example_finalized OPERATOR_ROLE example_admin"
    by (simp add: example_finalized_def example_EpochManager_def)
  have cur: "endTime (epochs example_EpochManager (currentEpochId example_EpochManager))
      \<le> 99999999"
    by (simp add: example_EpochManager_def)
  have nf: "\<not> finalized (epochs example_EpochManager (currentEpochId example_EpochManager))"
    by (simp add: example_EpochManager_def)
  have lt: "currentEpochId example_EpochManager < 2"
    by (simp add: example_EpochManager_def)
  have op0: "roles_EM example_EpochManager OPERATOR_ROLE example_admin"
    by (simp add: example_EpochManager_def)
  note inst1 = epoch_ordering [of example_EpochManager 99999999 example_admin 1 5 100
      example_finalized example_admin 7 100]
  note inst2 = epoch_ordering [of example_EpochManager 99999999 example_admin 2 5 100
      example_finalized example_admin 7 100]
  from inst1 nf cur have a: "advanceEpoch example_EpochManager 99999999 =
      Inl (Revert ''Current epoch not finalized yet'')" by simp
  from inst1 fin op have b: "finalizeEpoch example_finalized example_admin 1 7 100 =
      Inl (Revert ''Already finalized'')" by simp
  from inst1 have c: "isl (finalizeEpoch example_EpochManager example_admin 1 0 100)" by simp
  from inst2 lt op0 have d: "finalizeEpoch example_EpochManager example_admin 2 5 100 =
      Inl (Revert ''Invalid epoch'')" by simp
  from nf a fin b c lt d show ?thesis by blast
qed

section \<open>Past epochs have a root\<close>

lemma transact_EpochManager_inv:
  assumes "1 \<le> currentEpochId s"
    and "\<forall>i. finalized (epochs s i) \<longrightarrow> merkleRoot (epochs s i) \<noteq> 0"
    and "\<forall>i. 1 \<le> i \<and> i < currentEpochId s \<longrightarrow> finalized (epochs s i)"
  shows "1 \<le> currentEpochId (transact_EpochManager s tx) \<and>
         (\<forall>i. finalized (epochs (transact_EpochManager s tx) i) \<longrightarrow>
              merkleRoot (epochs (transact_EpochManager s tx) i) \<noteq> 0) \<and>
         (\<forall>i. 1 \<le> i \<and> i < currentEpochId (transact_EpochManager s tx) \<longrightarrow>
              finalized (epochs (transact_EpochManager s tx) i))"
proof -
  obtain sender now c where tx: "tx = (sender, now, c)"
    by (cases tx) auto
  show ?thesis
  proof (cases c)
    case AdvanceEpoch
    with tx assms show ?thesis
      by (auto simp: transact_EpochManager_def advanceEpoch_def checked_add_def
          less_Suc_eq split: if_splits)
  next
    case (FinalizeEpoch epochId root rewards)
    with tx assms show ?thesis
      by (auto simp: transact_EpochManager_def finalizeEpoch_def split: if_splits)
  next
    case (SetEpochDuration duration)
    with tx assms show ?thesis
      by (auto simp: transact_EpochManager_def setEpochDuration_def split: if_splits)
  qed
qed

lemma run_EpochManager_inv:
  assumes "1 \<le> currentEpochId s"
    and "\<forall>i. finalized (epochs s i) \<longrightarrow> merkleRoot (epochs s i) \<noteq> 0"
    and "\<forall>i. 1 \<le> i \<and> i < currentEpochId s \<longrightarrow> finalized (epochs s i)"
  shows "1 \<le> currentEpochId (run_EpochManager s txs) \<and>
         (\<forall>i. finalized (epochs (run_EpochManager s txs) i) \<longrightarrow>
              merkleRoot (epochs (run_EpochManager s txs) i) \<noteq> 0) \<and>
         (\<forall>i. 1 \<le> i \<and> i < currentEpochId (run_EpochManager s txs) \<longrightarrow>
              finalized (epochs (run_EpochManager s txs) i))"
  using assms
proof (induction txs arbitrary: s)
  case Nil
  then show ?case by (simp add: run_EpochManager_def)
next
  case (Cons tx txs)
  from transact_EpochManager_inv [OF Cons.prems, of tx]
  have "1 \<le> currentEpochId (run_EpochManager (transact_EpochManager s tx) txs) \<and>
         (\<forall>i. finalized (epochs (run_EpochManager (transact_EpochManager s tx) txs) i) \<longrightarrow>
              merkleRoot (epochs (run_EpochManager (transact_EpochManager s tx) txs) i) \<noteq> 0) \<and>
         (\<forall>i. 1 \<le> i \<and> i < currentEpochId (run_EpochManager (transact_EpochManager s tx) txs) \<longrightarrow>
              finalized (epochs (run_EpochManager (transact_EpochManager s tx) txs) i))"
    by (intro Cons.IH) blast+
  then show ?case by (simp add: run_EpochManager_def)
qed

lemma constructor_EpochManager_inv:
  assumes "constructor_EpochManager admin now = Inr s"
  shows "1 \<le> currentEpochId s \<and>
         (\<forall>i. finalized (epochs s i) \<longrightarrow> merkleRoot (epochs s i) \<noteq> 0) \<and>
         (\<forall>i. 1 \<le> i \<and> i < currentEpochId s \<longrightarrow> finalized (epochs s i))"
  using assms
  by (auto simp: constructor_EpochManager_def checked_add_def zero_Epoch_def split: if_splits)

text \<open>
  Claim C9. Epochs are numbered from 1: the constructor opens epoch 1 and \<open>advanceEpoch\<close>
  opens the next number. In every state reached from a constructed epoch manager by any
  history of \<open>finalizeEpoch\<close>, \<open>advanceEpoch\<close> and \<open>setEpochDuration\<close> transactions (by any
  callers, at any block times, succeeding or aborting), every epoch \<open>i\<close> with
  \<open>1 \<le> i < currentEpochId\<close> is finalized and its merkle root is not zero.
\<close>

theorem past_epochs_have_root:
  assumes "constructor_EpochManager admin now = Inr s0"
    and "1 \<le> i" and "i < currentEpochId (run_EpochManager s0 txs)"
  shows "finalized (epochs (run_EpochManager s0 txs) i) \<and>
         merkleRoot (epochs (run_EpochManager s0 txs) i) \<noteq> 0"
proof -
  from constructor_EpochManager_inv [OF assms(1)]
  have "1 \<le> currentEpochId s0"
    and "\<forall>i. finalized (epochs s0 i) \<longrightarrow> merkleRoot (epochs s0 i) \<noteq> 0"
    and "\<forall>i. 1 \<le> i \<and> i < currentEpochId s0 \<longrightarrow> finalized (epochs s0 i)"
    by blast+
  from run_EpochManager_inv [OF this, of txs] assms(2,3) show ?thesis
    by blast
qed

lemma example_history_run:
  "currentEpochId (run_EpochManager example_EpochManager example_history) = 2"
  by (simp add: run_EpochManager_def example_history_def transact_EpochManager_def
      example_EpochManager_def advanceEpoch_def canAdvanceEpoch_def finalizeEpoch_def
      setEpochDuration_def checked_add_def MAX_UINT256_def MIN_EPOCH_DURATION_def
      MAX_EPOCH_DURATION_def example_admin_def)

theorem past_epochs_have_root_witness:
  "constructor_EpochManager example_admin 1000 = Inr example_EpochManager \<and>
   (1::nat) \<le> 1 \<and>
   1 < currentEpochId (run_EpochManager example_EpochManager example_history) \<and>
   finalized (epochs (run_EpochManager example_EpochManager example_history) 1) \<and>
   merkleRoot (epochs (run_EpochManager example_EpochManager example_history) 1) \<noteq> 0"
proof -
  have lt: "1 < currentEpochId (run_EpochManager example_EpochManager example_history)"
    by (simp add: example_history_run)
  from past_epochs_have_root [OF example_EpochManager_constructed _ lt]
    example_EpochManager_constructed lt
  show ?thesis by simp
qed

section \<open>Claiming at most once\<close>

lemma example_MerkleDistributor_constructed:
  "(case constructor_MerkleDistributor example_admin 20 of
      Inl e \<Rightarrow> Inl e
    | Inr s \<Rightarrow> setMerkleRoot s example_admin 1 30 150) = Inr example_MerkleDistributor"
  by (simp add: constructor_MerkleDistributor_def setMerkleRoot_def
      example_MerkleDistributor_def)

lemma mark_claimed_apply:
  "mark_claimed c e t a e' t' a' = (c e' t' a' \<or> (e' = e \<and> t' = t \<and> a' = a))"
  by (auto simp: mark_claimed_def)

lemma claimMultiple_loop_mono:
  "claimMultiple_loop K V roots sender token xs c n = Inr (c', n') \<Longrightarrow> c e t a \<Longrightarrow> c' e t a"
proof (induction xs arbitrary: c n)
  case Nil
  then show ?case by simp
next
  case (Cons x xs)
  obtain e0 amt p where x: "x = (e0, amt, p)" by (cases x) auto
  from Cons.prems x show ?case
    by (auto simp: mark_claimed_apply checked_add_def split: if_splits
        dest: Cons.IH)
qed

lemma transact_MerkleDistributor_claimed:
  assumes "claimed s e t a"
  shows "claimed (transact_MerkleDistributor K V s tx) e t a"
proof -
  obtain sender c where tx: "tx = (sender, c)" by (cases tx) auto
  show ?thesis
  proof (cases c)
    case (SetMerkleRoot x11 x12 x13)
    with tx assms show ?thesis
      by (auto simp: transact_MerkleDistributor_def setMerkleRoot_def split: if_splits)
  next
    case (Claim x21 x22 x23 x24)
    with tx assms show ?thesis
      by (auto simp: transact_MerkleDistributor_def claim_def mark_claimed_apply
          checked_add_def split: if_splits)
  next
    case (ClaimMultiple x31 x32 x33 x34)
    with tx assms show ?thesis
      by (auto simp: transact_MerkleDistributor_def claimMultiple_def checked_add_def
          split: if_splits sum.splits prod.splits dest: claimMultiple_loop_mono)
  next
    case (SetTreasury x4)
    with tx assms show ?thesis
      by (auto simp: transact_MerkleDistributor_def setTreasury_def split: if_splits)
  qed
qed

lemma run_MerkleDistributor_claimed:
  "claimed s e t a \<Longrightarrow> claimed (run_MerkleDistributor K V s txs) e t a"
  unfolding run_MerkleDistributor_def
  by (induction txs arbitrary: s) (auto intro: transact_MerkleDistributor_claimed)

text \<open>
  Claim C2, as amended. For every distributor state, account, epoch, token, amount and
  proof, \<open>claim\<close> goes through its checks in the order of the source.
  \<^item> A first claim (the key not yet claimed) with a root recorded and a proof that verifies
    succeeds provided the account's cumulative total for the token, with the amount added,
    stays within \<^verbatim>\<open>uint256\<close>: it marks the key, adds the amount to the account's total and
    requests one transfer of the amount from the treasury. When the total would leave
    \<^verbatim>\<open>uint256\<close> the claim aborts with the arithmetic panic of the checked addition and
    nothing is claimed.
  \<^item> After a successful claim the key is claimed; the same claim again fails with
    "Already claimed", and so does every later claim for that key, with any amount and
    proof, after any history of further transactions; \<open>canClaim\<close> answers false.
  \<^item> A claim for a claimed key fails with "Already claimed"; otherwise a claim with no root
    recorded fails with "Merkle root not set"; otherwise a claim whose proof does not verify
    fails with "Invalid proof".
\<close>

theorem claim_at_most_once:
  "(\<not> claimed s epochId token account \<and> epochMerkleRoots s epochId token \<noteq> 0 \<and>
    verifyProof merkleProof (epochMerkleRoots s epochId token) (leafOf account amount) \<and>
    totalClaimed s account token + amount \<le> MAX_UINT256 \<longrightarrow>
      claim leafOf verifyProof s account epochId token amount merkleProof =
        Inr (s\<lparr>claimed := mark_claimed (claimed s) epochId token account,
               totalClaimed := add_totalClaimed (totalClaimed s) account token
                                 (totalClaimed s account token + amount)\<rparr>,
             [SafeTransferFrom token (treasury s) account amount])) \<and>
   (claim leafOf verifyProof s account epochId token amount merkleProof = Inr (s', out) \<longrightarrow>
      isClaimed s' epochId token account \<and>
      claim leafOf verifyProof s' account epochId token amount merkleProof =
        Inl (Revert ''Already claimed'') \<and>
      claim leafOf verifyProof (run_MerkleDistributor leafOf verifyProof s' txs)
          account epochId token amount2 merkleProof2 = Inl (Revert ''Already claimed'') \<and>
      \<not> canClaim leafOf verifyProof s' epochId token account amount2 merkleProof2) \<and>
   (\<not> claimed s epochId token account \<and> epochMerkleRoots s epochId token \<noteq> 0 \<and>
    verifyProof merkleProof (epochMerkleRoots s epochId token) (leafOf account amount) \<and>
    \<not> totalClaimed s account token + amount \<le> MAX_UINT256 \<longrightarrow>
      claim leafOf verifyProof s account epochId token amount merkleProof = Inl Panic_0x11) \<and>
   (claimed s epochId token account \<longrightarrow>
      claim leafOf verifyProof s account epochId token amount merkleProof =
        Inl (Revert ''Already claimed'')) \<and>
   (\<not> claimed s epochId token account \<and> epochMerkleRoots s epochId token = 0 \<longrightarrow>
      claim leafOf verifyProof s account epochId token amount merkleProof =
        Inl (Revert ''Merkle root not set'')) \<and>
   (\<not> claimed s epochId token account \<and> epochMerkleRoots s epochId token \<noteq> 0 \<and>
    \<not> verifyProof merkleProof (epochMerkleRoots s epochId token) (leafOf account amount) \<longrightarrow>
      claim leafOf verifyProof s account epochId token amount merkleProof =
        Inl (Revert ''Invalid proof''))"
proof -
  have after: "claimed s' epochId token account"
    if "claim leafOf verifyProof s account epochId token amount merkleProof = Inr (s', out)"
    using that
    by (auto simp: claim_def checked_add_def mark_claimed_apply split: if_splits)
  have again: "claim leafOf verifyProof s2 account epochId token amount2 merkleProof2 =
      Inl (Revert ''Already claimed'')" if "claimed s2 epochId token account"
    for s2 amount2 merkleProof2
    using that by (simp add: claim_def)
  show ?thesis
    using after again run_MerkleDistributor_claimed [of s' epochId token account]
    by (auto simp: claim_def checked_add_def canClaim_def isClaimed_def)
qed


theorem claim_at_most_once_witness:
  "\<not> claimed example_MerkleDistributor 1 30 40 \<and>
   epochMerkleRoots example_MerkleDistributor 1 30 \<noteq> 0 \<and>
   toy_verifyProof [10] (epochMerkleRoots example_MerkleDistributor 1 30) (toy_leafOf 40 100) \<and>
   totalClaimed example_MerkleDistributor 40 30 + 100 \<le> MAX_UINT256 \<and>
   claim toy_leafOf toy_verifyProof example_MerkleDistributor 40 1 30 100 [10] =
     Inr (example_claimed,
          [SafeTransferFrom 30 20 40 100]) \<and>
   isClaimed example_claimed 1 30 40 \<and>
   claim toy_leafOf toy_verifyProof example_claimed 40 1 30 100 [10] =
     Inl (Revert ''Already claimed'') \<and>
   \<not> canClaim toy_leafOf toy_verifyProof example_claimed 1 30 40 100 [10] \<and>
   epochMerkleRoots example_MerkleDistributor 2 30 = 0 \<and>
   claim toy_leafOf toy_verifyProof example_MerkleDistributor 40 2 30 100 [10] =
     Inl (Revert ''Merkle root not set'') \<and>
   \<not> toy_verifyProof [10] (epochMerkleRoots example_MerkleDistributor 1 30) (toy_leafOf 40 101) \<and>
   claim toy_leafOf toy_verifyProof example_MerkleDistributor 40 1 30 101 [10] =
     Inl (Revert ''Invalid proof'')"
proof -
  have h1: "\<not> claimed example_MerkleDistributor 1 30 40"
    and h1': "\<not> claimed example_MerkleDistributor 2 30 40"
    and h2: "epochMerkleRoots example_MerkleDistributor 1 30 \<noteq> 0"
    and h3: "toy_verifyProof [10] (epochMerkleRoots example_MerkleDistributor 1 30)
               (toy_leafOf 40 100)"
    and h4: "totalClaimed example_MerkleDistributor 40 30 + 100 \<le> MAX_UINT256"
    and h5: "epochMerkleRoots example_MerkleDistributor 2 30 = 0"
    and h6: "\<not> toy_verifyProof [10] (epochMerkleRoots example_MerkleDistributor 1 30)
               (toy_leafOf 40 101)"
    and h7: "treasury example_MerkleDistributor = 20"
    and h8: "totalClaimed example_MerkleDistributor 40 30 = 0"
    by (simp_all add: example_MerkleDistributor_def toy_verifyProof_def toy_leafOf_def
        MAX_UINT256_def)
  note first = claim_at_most_once [of example_MerkleDistributor 1 30 40 toy_verifyProof "[10]"
      toy_leafOf 100 example_claimed
      "[SafeTransferFrom 30 20 40 100]" "[]" 100 "[10]"]
  from first h1 h2 h3 h4 h7 h8
  have a: "claim toy_leafOf toy_verifyProof example_MerkleDistributor 40 1 30 100 [10] =
     Inr (example_claimed,
          [SafeTransferFrom 30 20 40 100])"
    by (simp add: example_claimed_def)
  from first a
  have b: "isClaimed example_claimed 1 30 40"
    and c: "claim toy_leafOf toy_verifyProof example_claimed 40 1 30 100 [10] =
     Inl (Revert ''Already claimed'')"
    and d: "\<not> canClaim toy_leafOf toy_verifyProof example_claimed 1 30 40 100 [10]"
    by blast+
  from claim_at_most_once [of example_MerkleDistributor 2 30 40 toy_verifyProof "[10]"
      toy_leafOf 100] h1' h5
  have e: "claim toy_leafOf toy_verifyProof example_MerkleDistributor 40 2 30 100 [10] =
     Inl (Revert ''Merkle root not set'')"
    by blast
  from claim_at_most_once [of example_MerkleDistributor 1 30 40 toy_verifyProof "[10]"
      toy_leafOf 101] h1 h2 h6
  have f: "claim toy_leafOf toy_verifyProof example_MerkleDistributor 40 1 30 101 [10] =
     Inl (Revert ''Invalid proof'')"
    by blast
  from h1 h2 h3 h4 a b c d h5 e h6 f show ?thesis by blast
qed

lemma example_exhausted_eq:
  "example_exhausted =
     example_MerkleDistributor
       \<lparr>epochMerkleRoots := (epochMerkleRoots example_MerkleDistributor)(2 := (\<lambda>_. 0)(30 := 150)),
        claimed := mark_claimed (claimed example_MerkleDistributor) 1 30 40,
        totalClaimed := add_totalClaimed (totalClaimed example_MerkleDistributor) 40 30
                          MAX_UINT256\<rparr>"
  by (simp add: example_exhausted_def run_MerkleDistributor_def transact_MerkleDistributor_def
      claim_def setMerkleRoot_def example_MerkleDistributor_def example_admin_def
      toy_leafOf_def toy_verifyProof_def checked_add_def MAX_UINT256_def)

text \<open>
  The claim as stated, for every state, fails on the code in a state reached from the
  constructor: after account 40 has claimed the largest \<^verbatim>\<open>uint256\<close> amount for epoch 1, its
  first claim for epoch 2, with a root recorded and a proof that verifies, and which
  \<open>canClaim\<close> accepts, aborts with the arithmetic panic and leaves the key unclaimed.
\<close>

theorem claim_overflow_counterexample:
  "(case constructor_MerkleDistributor example_admin 20 of
      Inl e \<Rightarrow> Inl e
    | Inr s \<Rightarrow> setMerkleRoot s example_admin 1 30 150) = Inr example_MerkleDistributor \<and>
   totalClaimed example_exhausted 40 30 = MAX_UINT256 \<and>
   \<not> claimed example_exhausted 2 30 40 \<and>
   epochMerkleRoots example_exhausted 2 30 \<noteq> 0 \<and>
   toy_verifyProof [10] (epochMerkleRoots example_exhausted 2 30) (toy_leafOf 40 100) \<and>
   canClaim toy_leafOf toy_verifyProof example_exhausted 2 30 40 100 [10] \<and>
   claim toy_leafOf toy_verifyProof example_exhausted 40 2 30 100 [10] = Inl Panic_0x11 \<and>
   \<not> isClaimed (transact_MerkleDistributor toy_leafOf toy_verifyProof example_exhausted
                  (40, Claim 2 30 100 [10])) 2 30 40"
proof -
  have c: "(case constructor_MerkleDistributor example_admin 20 of
      Inl e \<Rightarrow> Inl e
    | Inr s \<Rightarrow> setMerkleRoot s example_admin 1 30 150) = Inr example_MerkleDistributor"
    by (simp add: constructor_MerkleDistributor_def setMerkleRoot_def
        example_MerkleDistributor_def)
  have t: "totalClaimed example_exhausted 40 30 = MAX_UINT256"
    and n: "\<not> claimed example_exhausted 2 30 40"
    and r: "epochMerkleRoots example_exhausted 2 30 = 150"
    by (simp_all add: example_exhausted_eq add_totalClaimed_def mark_claimed_apply
        example_MerkleDistributor_def)
  have v: "toy_verifyProof [10] 150 (toy_leafOf 40 100)"
    by (simp add: toy_verifyProof_def toy_leafOf_def)
  from n r v have can: "canClaim toy_leafOf toy_verifyProof example_exhausted 2 30 40 100 [10]"
    by (simp add: canClaim_def)
  from t n r v have p:
    "claim toy_leafOf toy_verifyProof example_exhausted 40 2 30 100 [10] = Inl Panic_0x11"
    by (simp add: claim_def checked_add_def MAX_UINT256_def)
  from p n have a: "\<not> isClaimed (transact_MerkleDistributor toy_leafOf toy_verifyProof
      example_exhausted (40, Claim 2 30 100 [10])) 2 30 40"
    by (simp add: transact_MerkleDistributor_def isClaimed_def)
  from c t n r v can p a show ?thesis by simp
qed
section \<open>Replacing a recorded root\<close>

text \<open>
  Claim C10. \<open>setMerkleRoot\<close>, called by an operator, has one \<^verbatim>\<open>require\<close>: it fails for
  the zero root with "Invalid merkle root" and succeeds for every other root, whatever root is
  already recorded for the epoch and token. In particular, after an account has claimed
  against the recorded root, an operator's \<open>setMerkleRoot\<close> for the same epoch and token with
  another non-zero root succeeds: the new root is the recorded one, the claimed flags and
  totals stay, and the claims of the accounts that have not claimed yet are checked against
  the new root (\<open>canClaim\<close> is the verification against the new root, and \<open>claim\<close> with a
  proof that does not verify against it fails with "Invalid proof").
\<close>

theorem setMerkleRoot_replaces_root:
  "(roles_MD s OPERATOR_ROLE caller \<longrightarrow>
      setMerkleRoot s caller epochId token root =
        (if root = 0 then Inl (Revert ''Invalid merkle root'')
         else Inr (s\<lparr>epochMerkleRoots :=
                 (epochMerkleRoots s)(epochId := (epochMerkleRoots s epochId)(token := root))\<rparr>))) \<and>
   (claim leafOf verifyProof s0 account epochId token amount merkleProof = Inr (s, out) \<and>
    roles_MD s OPERATOR_ROLE caller \<and> root \<noteq> 0 \<and>
    setMerkleRoot s caller epochId token root = Inr s2 \<longrightarrow>
      epochMerkleRoots s2 epochId token = root \<and>
      claimed s2 = claimed s \<and> totalClaimed s2 = totalClaimed s \<and>
      isClaimed s2 epochId token account \<and>
      (\<not> claimed s2 epochId token account2 \<longrightarrow>
         canClaim leafOf verifyProof s2 epochId token account2 amount2 merkleProof2 =
           verifyProof merkleProof2 root (leafOf account2 amount2)) \<and>
      (\<not> claimed s2 epochId token account2 \<and>
       \<not> verifyProof merkleProof2 root (leafOf account2 amount2) \<longrightarrow>
         claim leafOf verifyProof s2 account2 epochId token amount2 merkleProof2 =
           Inl (Revert ''Invalid proof'')))"
  by (auto simp: setMerkleRoot_def claim_def canClaim_def isClaimed_def checked_add_def
      mark_claimed_apply split: if_splits)

theorem setMerkleRoot_replaces_root_witness:
  "roles_MD example_MerkleDistributor OPERATOR_ROLE example_admin \<and>
   roles_MD example_claimed OPERATOR_ROLE example_admin \<and>
   epochMerkleRoots example_claimed 1 30 = 150 \<and>
   setMerkleRoot example_claimed example_admin 1 30 0 = Inl (Revert ''Invalid merkle root'') \<and>
   claim toy_leafOf toy_verifyProof example_MerkleDistributor 40 1 30 100 [10] =
     Inr (example_claimed,
          [SafeTransferFrom 30 20 40 100]) \<and>
   setMerkleRoot example_claimed example_admin 1 30 999 = Inr example_replaced \<and>
   epochMerkleRoots example_replaced 1 30 = 999 \<and>
   isClaimed example_replaced 1 30 40 \<and>
   \<not> claimed example_replaced 1 30 50 \<and>
   toy_verifyProof [10] 150 (toy_leafOf 50 90) \<and>
   \<not> toy_verifyProof [10] 999 (toy_leafOf 50 90) \<and>
   \<not> canClaim toy_leafOf toy_verifyProof example_replaced 1 30 50 90 [10] \<and>
   claim toy_leafOf toy_verifyProof example_replaced 50 1 30 90 [10] =
     Inl (Revert ''Invalid proof'')"
proof -
  have r0: "roles_MD example_MerkleDistributor OPERATOR_ROLE example_admin"
    and r1: "roles_MD example_claimed OPERATOR_ROLE example_admin"
    and old: "epochMerkleRoots example_claimed 1 30 = 150"
    and nc: "\<not> claimed example_replaced 1 30 50"
    and v1: "toy_verifyProof [10] 150 (toy_leafOf 50 90)"
    and v2: "\<not> toy_verifyProof [10] 999 (toy_leafOf 50 90)"
    by (simp_all add: example_MerkleDistributor_def example_claimed_def example_replaced_def
        mark_claimed_apply toy_verifyProof_def toy_leafOf_def)
  have c: "claim toy_leafOf toy_verifyProof example_MerkleDistributor 40 1 30 100 [10] =
     Inr (example_claimed,
          [SafeTransferFrom 30 20 40 100])"
    by (simp add: claim_def toy_leafOf_def toy_verifyProof_def example_MerkleDistributor_def
        example_claimed_def checked_add_def MAX_UINT256_def)
  note zero = setMerkleRoot_replaces_root [of example_claimed example_admin 1 30 0]
  note repl = setMerkleRoot_replaces_root [of example_claimed example_admin 1 30 999
      toy_leafOf toy_verifyProof example_MerkleDistributor 40 100 "[10]"
      "[SafeTransferFrom 30 20 40 100]"
      example_replaced 50 90 "[10]"]
  from zero r1
  have z: "setMerkleRoot example_claimed example_admin 1 30 0 =
      Inl (Revert ''Invalid merkle root'')"
    by simp
  from repl r1
  have s: "setMerkleRoot example_claimed example_admin 1 30 999 = Inr example_replaced"
    by (simp add: example_replaced_def)
  from repl c r1 s
  have a: "epochMerkleRoots example_replaced 1 30 = 999"
    and b: "isClaimed example_replaced 1 30 40"
    and d: "\<not> claimed example_replaced 1 30 50 \<longrightarrow>
         canClaim toy_leafOf toy_verifyProof example_replaced 1 30 50 90 [10] =
           toy_verifyProof [10] 999 (toy_leafOf 50 90)"
    and e: "\<not> claimed example_replaced 1 30 50 \<and>
       \<not> toy_verifyProof [10] 999 (toy_leafOf 50 90) \<longrightarrow>
         claim toy_leafOf toy_verifyProof example_replaced 50 1 30 90 [10] =
           Inl (Revert ''Invalid proof'')"
    by simp_all
  from d nc v2 have d': "\<not> canClaim toy_leafOf toy_verifyProof example_replaced 1 30 50 90 [10]"
    by simp
  from e nc v2 have e': "claim toy_leafOf toy_verifyProof example_replaced 50 1 30 90 [10] =
     Inl (Revert ''Invalid proof'')"
    by simp
  from r0 r1 old z c s a b nc v1 v2 d' e' show ?thesis by blast
qed

section \<open>Batches of claims\<close>

lemma payout_simps [simp]:
  "payout [] = 0" "payout ((e, a, p) # xs) = a + payout xs"
  by (simp_all add: payout_def)

lemma claimMultiple_loop_eq:
  assumes "c = (\<lambda>e t a. claimed s e t a \<or> (t = token \<and> a = sender \<and> e \<in> set taken))"
    and "n \<le> MAX_UINT256"
  shows "claimMultiple_loop leafOf verifyProof (epochMerkleRoots s) sender token xs c n =
     (if n + payout (eligible_entries leafOf verifyProof s sender token taken xs) \<le> MAX_UINT256
      then Inr ((\<lambda>e t a. claimed s e t a \<or>
                   (t = token \<and> a = sender \<and>
                    (e \<in> set taken \<or>
                     e \<in> fst ` set (eligible_entries leafOf verifyProof s sender token taken xs)))),
                n + payout (eligible_entries leafOf verifyProof s sender token taken xs))
      else Inl Panic_0x11)"
  using assms
proof (induction xs arbitrary: c n taken)
  case Nil
  then show ?case by simp
next
  case (Cons x xs)
  obtain e0 amt p where x: "x = (e0, amt, p)" by (cases x) auto
  show ?case
  proof (cases "e0 \<notin> set taken \<and> canClaim leafOf verifyProof s e0 token sender amt p")
    case False
    with Cons.prems(1) x have skip:
      "claimMultiple_loop leafOf verifyProof (epochMerkleRoots s) sender token (x # xs) c n =
       claimMultiple_loop leafOf verifyProof (epochMerkleRoots s) sender token xs c n"
      by (auto simp: canClaim_def)
    from False x have el:
      "eligible_entries leafOf verifyProof s sender token taken (x # xs) =
       eligible_entries leafOf verifyProof s sender token taken xs"
      by auto
    show ?thesis unfolding skip el by (rule Cons.IH [OF Cons.prems])
  next
    case True
    let ?c' = "mark_claimed c e0 token sender"
    have c': "?c' = (\<lambda>e t a. claimed s e t a \<or> (t = token \<and> a = sender \<and> e \<in> set (e0 # taken)))"
      by (rule ext)+ (auto simp: mark_claimed_apply Cons.prems(1))
    from True Cons.prems(1) x have take:
      "claimMultiple_loop leafOf verifyProof (epochMerkleRoots s) sender token (x # xs) c n =
       (case checked_add n amt of Inl e \<Rightarrow> Inl e
        | Inr m \<Rightarrow> claimMultiple_loop leafOf verifyProof (epochMerkleRoots s) sender token xs ?c' m)"
      by (auto simp: canClaim_def split: if_splits)
    show ?thesis
    proof (cases "n + amt \<le> MAX_UINT256")
      case le: True
      with take have "claimMultiple_loop leafOf verifyProof (epochMerkleRoots s) sender token (x # xs) c n =
          claimMultiple_loop leafOf verifyProof (epochMerkleRoots s) sender token xs ?c' (n + amt)"
        by (simp add: checked_add_def)
      moreover from True x have el:
        "eligible_entries leafOf verifyProof s sender token taken (x # xs) =
         (e0, amt, p) # eligible_entries leafOf verifyProof s sender token (e0 # taken) xs"
        by auto
      ultimately show ?thesis unfolding el using Cons.IH [OF c' le]
        by (auto simp: add.assoc intro!: ext)
    next
      case gt: False
      moreover from True x have el:
        "eligible_entries leafOf verifyProof s sender token taken (x # xs) =
         (e0, amt, p) # eligible_entries leafOf verifyProof s sender token (e0 # taken) xs"
        by auto
      ultimately show ?thesis unfolding el using take
        by (simp add: checked_add_def)
    qed
  qed
qed

lemma eligible_entries_distinct:
  "distinct (map fst xs) \<Longrightarrow> set taken \<inter> fst ` set xs = {} \<Longrightarrow>
   eligible_entries leafOf verifyProof s sender token taken xs =
     filter (\<lambda>(e, a, p). canClaim leafOf verifyProof s e token sender a p) xs"
proof (induction xs arbitrary: taken)
  case Nil
  then show ?case by simp
next
  case (Cons x xs)
  obtain e0 amt p where x: "x = (e0, amt, p)" by (cases x) auto
  from Cons.prems x have d: "distinct (map fst xs)" and n: "e0 \<notin> fst ` set xs"
    and t: "e0 \<notin> set taken" and i: "set taken \<inter> fst ` set xs = {}"
    by auto
  from i n have i': "set (e0 # taken) \<inter> fst ` set xs = {}" by auto
  from Cons.IH [OF d i] Cons.IH [OF d i'] x t show ?case by simp
qed

lemma eligible_entries_none:
  "\<forall>(e, a, p) \<in> set xs. \<not> canClaim leafOf verifyProof s e token sender a p \<Longrightarrow>
   eligible_entries leafOf verifyProof s sender token taken xs = []"
  by (induction xs arbitrary: taken) auto


text \<open>
  Claim C4, as amended. \<open>claimMultiple\<close> for a caller and a token, given three arrays of
  one length, is decided by the entries that are eligible in the state before the call: an
  entry whose key is already claimed (before the batch, or by an earlier entry of the batch),
  or that has no root recorded, or whose proof does not verify, is passed over and changes
  neither the storage nor the outcome. Provided the sum of the eligible amounts, and the
  caller's cumulative total with that sum added, stay within \<^verbatim>\<open>uint256\<close>, the call marks
  the eligible entries claimed and, when their amounts sum to more than zero, adds the sum to
  the caller's total and requests one transfer of exactly the sum from the treasury. With no
  eligible entry the call succeeds, changes nothing and requests no transfer. When the sum of
  the eligible amounts, or the caller's total with it, leaves \<^verbatim>\<open>uint256\<close>, the whole batch
  aborts with the arithmetic panic and nothing is paid. For pairwise distinct epoch ids the
  eligible entries are the entries that \<open>canClaim\<close> accepts.
\<close>

theorem claimMultiple_best_effort:
  assumes "length epochIds = length amounts" and "length epochIds = length merkleProofs"
  shows
    "let entries = zip epochIds (zip amounts merkleProofs);
         paid = eligible_entries leafOf verifyProof s sender token [] entries;
         totalAmount = payout paid
     in claimMultiple leafOf verifyProof s sender epochIds token amounts merkleProofs =
          (if totalAmount \<le> MAX_UINT256 \<and>
              (totalAmount = 0 \<or> totalClaimed s sender token + totalAmount \<le> MAX_UINT256)
           then Inr (s\<lparr>claimed := (\<lambda>e t a. claimed s e t a \<or>
                                    (t = token \<and> a = sender \<and> e \<in> fst ` set paid)),
                       totalClaimed :=
                         (if 0 < totalAmount
                          then add_totalClaimed (totalClaimed s) sender token
                                 (totalClaimed s sender token + totalAmount)
                          else totalClaimed s)\<rparr>,
                     if 0 < totalAmount
                     then [SafeTransferFrom token (treasury s) sender totalAmount]
                     else [])
           else Inl Panic_0x11) \<and>
        (distinct epochIds \<longrightarrow>
           paid = filter (\<lambda>(e, a, p). canClaim leafOf verifyProof s e token sender a p) entries) \<and>
        ((\<forall>(e, a, p) \<in> set entries. \<not> canClaim leafOf verifyProof s e token sender a p) \<longrightarrow>
           claimMultiple leafOf verifyProof s sender epochIds token amounts merkleProofs =
             Inr (s, []))"
proof -
  define entries where "entries = zip epochIds (zip amounts merkleProofs)"
  define paid where "paid = eligible_entries leafOf verifyProof s sender token [] entries"
  have c0: "claimed s = (\<lambda>e t a. claimed s e t a \<or> (t = token \<and> a = sender \<and> e \<in> set []))"
    by simp
  have loop: "claimMultiple_loop leafOf verifyProof (epochMerkleRoots s) sender token entries
        (claimed s) 0 =
      (if payout paid \<le> MAX_UINT256
       then Inr ((\<lambda>e t a. claimed s e t a \<or> (t = token \<and> a = sender \<and> e \<in> fst ` set paid)),
                 payout paid)
       else Inl Panic_0x11)"
    using claimMultiple_loop_eq [OF c0, of 0 leafOf verifyProof entries]
    by (simp add: paid_def)
  have main: "claimMultiple leafOf verifyProof s sender epochIds token amounts merkleProofs =
          (if payout paid \<le> MAX_UINT256 \<and>
              (payout paid = 0 \<or> totalClaimed s sender token + payout paid \<le> MAX_UINT256)
           then Inr (s\<lparr>claimed := (\<lambda>e t a. claimed s e t a \<or>
                                    (t = token \<and> a = sender \<and> e \<in> fst ` set paid)),
                       totalClaimed :=
                         (if 0 < payout paid
                          then add_totalClaimed (totalClaimed s) sender token
                                 (totalClaimed s sender token + payout paid)
                          else totalClaimed s)\<rparr>,
                     if 0 < payout paid
                     then [SafeTransferFrom token (treasury s) sender (payout paid)]
                     else [])
           else Inl Panic_0x11)"
    using assms loop
    by (simp add: claimMultiple_def entries_def [symmetric] checked_add_def)
  have fsts: "map fst entries = epochIds"
    using assms by (simp add: entries_def)
  have dist: "paid = filter (\<lambda>(e, a, p). canClaim leafOf verifyProof s e token sender a p) entries"
    if "distinct epochIds"
    unfolding paid_def using that fsts
    by (intro eligible_entries_distinct) simp_all
  have none: "claimMultiple leafOf verifyProof s sender epochIds token amounts merkleProofs =
             Inr (s, [])"
    if "\<forall>(e, a, p) \<in> set entries. \<not> canClaim leafOf verifyProof s e token sender a p"
  proof -
    from that have "paid = []"
      unfolding paid_def by (rule eligible_entries_none)
    with main show ?thesis by simp
  qed
  from main dist none show ?thesis
    unfolding Let_def entries_def [symmetric] paid_def [symmetric] by blast
qed

lemma example_batch_eligible:
  "eligible_entries toy_leafOf toy_verifyProof example_batch 40 30 []
     (zip [1, 2, 3] (zip [100, 100, 100] [[10], [10], [11]])) = [(1, 100, [10])]"
  by (simp add: canClaim_def example_batch_def toy_leafOf_def toy_verifyProof_def
      mark_claimed_apply)

theorem claimMultiple_best_effort_witness:
  "length [1, 2, 3 :: nat] = length [100, 100, 100 :: nat] \<and>
   length [1, 2, 3 :: nat] = length [[10], [10], [11 :: bytes32]] \<and>
   isClaimed example_batch 2 30 40 \<and>
   \<not> toy_verifyProof [11] (epochMerkleRoots example_batch 3 30) (toy_leafOf 40 100) \<and>
   claimMultiple toy_leafOf toy_verifyProof example_batch 40 [1, 2, 3] 30 [100, 100, 100]
       [[10], [10], [11]] =
     Inr (example_batch_paid,
          [SafeTransferFrom 30 20 40 100]) \<and>
   distinct [2, 3 :: nat] \<and>
   claimMultiple toy_leafOf toy_verifyProof example_batch 40 [2, 3] 30 [100, 100]
       [[10], [11]] = Inr (example_batch, [])"
proof -
  have l1: "length [1, 2, 3 :: nat] = length [100, 100, 100 :: nat]"
    and l2: "length [1, 2, 3 :: nat] = length [[10], [10], [11 :: bytes32]]"
    and l3: "length [2, 3 :: nat] = length [100, 100 :: nat]"
    and l4: "length [2, 3 :: nat] = length [[10], [11 :: bytes32]]"
    by simp_all
  have c2: "isClaimed example_batch 2 30 40"
    and bad: "\<not> toy_verifyProof [11] (epochMerkleRoots example_batch 3 30) (toy_leafOf 40 100)"
    and none: "\<forall>(e, a, p) \<in> set (zip [2, 3] (zip [100, 100] [[10], [11]])).
        \<not> canClaim toy_leafOf toy_verifyProof example_batch e 30 40 a p"
    and tr: "treasury example_batch = 20" and tc: "totalClaimed example_batch 40 30 = 100"
    by (simp_all add: isClaimed_def canClaim_def example_batch_def toy_leafOf_def
        toy_verifyProof_def mark_claimed_apply)
  note inst = claimMultiple_best_effort [OF l1 l2,
      of toy_leafOf toy_verifyProof example_batch 40 30,
      unfolded Let_def example_batch_eligible, THEN conjunct1]
  from inst
  have a: "claimMultiple toy_leafOf toy_verifyProof example_batch 40 [1, 2, 3] 30
       [100, 100, 100] [[10], [10], [11]] =
     Inr (example_batch_paid,
          [SafeTransferFrom 30 20 40 100])"
    by (simp add: tr tc MAX_UINT256_def example_batch_paid_def)
  from claimMultiple_best_effort [OF l3 l4, of toy_leafOf toy_verifyProof example_batch 40 30]
    none
  have b: "claimMultiple toy_leafOf toy_verifyProof example_batch 40 [2, 3] 30 [100, 100]
       [[10], [11]] = Inr (example_batch, [])"
    unfolding Let_def by blast
  from l1 l2 c2 bad a b show ?thesis by simp
qed

lemma example_two_epochs_eq:
  "example_two_epochs =
     example_MerkleDistributor
       \<lparr>epochMerkleRoots := (epochMerkleRoots example_MerkleDistributor)(2 := (\<lambda>_. 0)(30 := 150))\<rparr>"
  by (simp add: example_two_epochs_def run_MerkleDistributor_def transact_MerkleDistributor_def
      setMerkleRoot_def example_MerkleDistributor_def example_admin_def)

text \<open>
  The claim as stated, for every batch, fails on the code in a state reached from the
  constructor: a batch of two entries for epochs 1 and 2, each eligible and each of amount
  \<open>2 ^ 255\<close>, aborts with the arithmetic panic of the running sum, where the claim has the
  sum of the two paid out. The batch of the first entry alone is paid.
\<close>

theorem claimMultiple_overflow_counterexample:
  "(case constructor_MerkleDistributor example_admin 20 of
      Inl e \<Rightarrow> Inl e
    | Inr s \<Rightarrow> setMerkleRoot s example_admin 1 30 150) = Inr example_MerkleDistributor \<and>
   example_half \<le> MAX_UINT256 \<and>
   canClaim toy_leafOf toy_verifyProof example_two_epochs 1 30 40 example_half
     example_half_proof \<and>
   canClaim toy_leafOf toy_verifyProof example_two_epochs 2 30 40 example_half
     example_half_proof \<and>
   eligible_entries toy_leafOf toy_verifyProof example_two_epochs 40 30 []
       (zip [1, 2] (zip [example_half, example_half] [example_half_proof, example_half_proof])) =
     [(1, example_half, example_half_proof), (2, example_half, example_half_proof)] \<and>
   claimMultiple toy_leafOf toy_verifyProof example_two_epochs 40 [1, 2] 30
       [example_half, example_half] [example_half_proof, example_half_proof] =
     Inl Panic_0x11 \<and>
   claimMultiple toy_leafOf toy_verifyProof example_two_epochs 40 [1] 30
       [example_half] [example_half_proof] =
     Inr (example_two_epochs
            \<lparr>claimed := mark_claimed (claimed example_two_epochs) 1 30 40,
             totalClaimed := add_totalClaimed (totalClaimed example_two_epochs) 40 30
                               example_half\<rparr>,
          [SafeTransferFrom 30 20 40 example_half])"
proof -
  have c: "(case constructor_MerkleDistributor example_admin 20 of
      Inl e \<Rightarrow> Inl e
    | Inr s \<Rightarrow> setMerkleRoot s example_admin 1 30 150) = Inr example_MerkleDistributor"
    by (simp add: constructor_MerkleDistributor_def setMerkleRoot_def
        example_MerkleDistributor_def)
  have h: "example_half \<le> MAX_UINT256"
    by (simp add: example_half_def MAX_UINT256_def)
  have n1: "\<not> claimed example_two_epochs 1 30 40"
    and n2: "\<not> claimed example_two_epochs 2 30 40"
    and r1: "epochMerkleRoots example_two_epochs 1 30 = 150"
    and r2: "epochMerkleRoots example_two_epochs 2 30 = 150"
    and tc: "totalClaimed example_two_epochs 40 30 = 0"
    and tr: "treasury example_two_epochs = 20"
    by (simp_all add: example_two_epochs_eq example_MerkleDistributor_def)
  have v: "toy_verifyProof example_half_proof 150 (toy_leafOf 40 example_half)"
    by (simp add: toy_verifyProof_def toy_leafOf_def example_half_def example_half_proof_def)
  from n1 r1 v have can1: "canClaim toy_leafOf toy_verifyProof example_two_epochs 1 30 40
      example_half example_half_proof"
    by (simp add: canClaim_def)
  from n2 r2 v have can2: "canClaim toy_leafOf toy_verifyProof example_two_epochs 2 30 40
      example_half example_half_proof"
    by (simp add: canClaim_def)
  from can1 can2 have el:
    "eligible_entries toy_leafOf toy_verifyProof example_two_epochs 40 30 []
       (zip [1, 2] (zip [example_half, example_half] [example_half_proof, example_half_proof])) =
     [(1, example_half, example_half_proof), (2, example_half, example_half_proof)]"
    by simp
  have over: "\<not> example_half + example_half \<le> MAX_UINT256"
    by (simp add: example_half_def MAX_UINT256_def)
  from n1 n2 r1 r2 v h over
  have p: "claimMultiple toy_leafOf toy_verifyProof example_two_epochs 40 [1, 2] 30
       [example_half, example_half] [example_half_proof, example_half_proof] =
     Inl Panic_0x11"
    by (simp add: claimMultiple_def checked_add_def mark_claimed_apply)
  have pos: "0 < example_half" by (simp add: example_half_def)
  from n1 r1 v h tc tr pos
  have one: "claimMultiple toy_leafOf toy_verifyProof example_two_epochs 40 [1] 30
       [example_half] [example_half_proof] =
     Inr (example_two_epochs
            \<lparr>claimed := mark_claimed (claimed example_two_epochs) 1 30 40,
             totalClaimed := add_totalClaimed (totalClaimed example_two_epochs) 40 30
                               example_half\<rparr>,
          [SafeTransferFrom 30 20 40 example_half])"
    by (simp add: claimMultiple_def checked_add_def)
  from c h can1 can2 el p one show ?thesis by simp
qed
section \<open>Splitting by basis points\<close>

lemma div_add_div_le: "(a::nat) div c + b div c \<le> (a + b) div c"
  by (metis Nat.add_0_right add.commute add_mono div_by_0 div_le_mono
    div_mult_self1 mult.commute order_refl times_div_less_eq_dividend)

lemma floor_shares_le:
  "sum_list (map (\<lambda>ratio. totalAmt * ratio div 10000) rs) \<le> totalAmt * sum_list rs div (10000::nat)"
proof (induction rs)
  case Nil
  then show ?case by simp
next
  case (Cons r rs)
  have "totalAmt * r div 10000 + sum_list (map (\<lambda>ratio. totalAmt * ratio div 10000) rs)
      \<le> totalAmt * r div 10000 + totalAmt * sum_list rs div 10000"
    using Cons.IH by simp
  also have "\<dots> \<le> (totalAmt * r + totalAmt * sum_list rs) div 10000"
    by (rule div_add_div_le)
  finally show ?case by (simp add: distrib_left)
qed

lemma prior_shares_le:
  assumes "sum_list ratiosBps = 10000"
  shows "sum_list (map (\<lambda>ratio. totalAmt * ratio div 10000) (butlast ratiosBps)) \<le> (totalAmt::nat)"
proof -
  have "sum_list (butlast ratiosBps) \<le> sum_list ratiosBps"
    by (cases ratiosBps rule: rev_cases) simp_all
  then have "totalAmt * sum_list (butlast ratiosBps) div 10000 \<le> totalAmt * 10000 div 10000"
    using assms by (intro div_le_mono mult_le_mono2) simp
  with floor_shares_le [of totalAmt "butlast ratiosBps"] show ?thesis by simp
qed

lemma spec_split_exact:
  assumes "sum_list ratiosBps = 10000"
  shows "\<exists>shares. spec_split totalAmt ratiosBps = Some shares \<and>
           length shares = length ratiosBps \<and>
           sum_list shares = totalAmt \<and>
           butlast shares = map (\<lambda>ratio. totalAmt * ratio div 10000) (butlast ratiosBps) \<and>
           last shares = totalAmt - sum_list (butlast shares)"
proof -
  from assms have ne: "ratiosBps \<noteq> []" by auto
  then have len: "Suc (length (butlast ratiosBps)) = length ratiosBps" by simp
  from prior_shares_le [OF assms, of totalAmt] assms len show ?thesis
    by (simp add: spec_split_def Let_def del: length_butlast)
qed

lemma sum_transfer_T: "sum_list (map amount_of (transfer_T token to amount)) = amount"
  by (simp add: transfer_T_def)

text \<open>
  Claim C5, as amended. The code has no split for arbitrary ratios; it has the treasury's
  distribution by 4000, 3000, 2000 and 1000 basis points. Called by a distributor with a
  balance \<open>0 < totalBalance\<close> whose product with 4000 fits \<^verbatim>\<open>uint256\<close>,
  \<open>distributeRewards\<close> computes the three shares \<open>totalBalance * bps div 10000\<close> and gives
  the security reserve the balance minus these three: exactly the shares of the
  specification's split for these ratios. It requests one transfer per non-zero share, and the
  amounts requested sum to \<open>totalBalance\<close>, whether or not the balance divides evenly. A zero
  balance is refused with "No funds to distribute"; a balance whose product with 4000 leaves
  \<^verbatim>\<open>uint256\<close> aborts with the arithmetic panic. The specification's split itself, for any
  ratios summing to 10000 and any total, zero included, returns one share per ratio, the
  shares before the last being the floors and the last the remainder, summing to the total.
\<close>

theorem distributeRewards_exact:
  "(roles_T s DISTRIBUTOR_ROLE sender \<and> 0 < totalBalance \<and>
    totalBalance * WATCHER_BPS \<le> MAX_UINT256 \<longrightarrow>
      (\<exists>out.
         distributeRewards s sender token totalBalance = Inr out \<and>
         out = transfer_T token (watcher s) (totalBalance * WATCHER_BPS div 10000) @
               transfer_T token (operator s) (totalBalance * OPERATOR_BPS div 10000) @
               transfer_T token (publicGoods s) (totalBalance * PUBLIC_GOODS_BPS div 10000) @
               transfer_T token (securityReserve s)
                 (totalBalance - totalBalance * WATCHER_BPS div 10000 -
                  totalBalance * OPERATOR_BPS div 10000 -
                  totalBalance * PUBLIC_GOODS_BPS div 10000) \<and>
         spec_split totalBalance [WATCHER_BPS, OPERATOR_BPS, PUBLIC_GOODS_BPS,
             SECURITY_RESERVE_BPS] =
           Some [totalBalance * WATCHER_BPS div 10000, totalBalance * OPERATOR_BPS div 10000,
                 totalBalance * PUBLIC_GOODS_BPS div 10000,
                 totalBalance - totalBalance * WATCHER_BPS div 10000 -
                  totalBalance * OPERATOR_BPS div 10000 -
                  totalBalance * PUBLIC_GOODS_BPS div 10000] \<and>
         sum_list (map amount_of out) = totalBalance)) \<and>
   (roles_T s DISTRIBUTOR_ROLE sender \<longrightarrow>
      distributeRewards s sender token 0 = Inl (Revert ''No funds to distribute'')) \<and>
   (roles_T s DISTRIBUTOR_ROLE sender \<and> \<not> totalBalance * WATCHER_BPS \<le> MAX_UINT256 \<longrightarrow>
      distributeRewards s sender token totalBalance = Inl Panic_0x11) \<and>
   (sum_list ratiosBps = 10000 \<longrightarrow>
      (\<exists>shares. spec_split totalAmt ratiosBps = Some shares \<and>
           length shares = length ratiosBps \<and>
           sum_list shares = totalAmt \<and>
           butlast shares = map (\<lambda>ratio. totalAmt * ratio div 10000) (butlast ratiosBps) \<and>
           last shares = totalAmt - sum_list (butlast shares)))"
proof -
  define w where "w = totalBalance * WATCHER_BPS div 10000"
  define ope where "ope = totalBalance * OPERATOR_BPS div 10000"
  define p where "p = totalBalance * PUBLIC_GOODS_BPS div 10000"
  have bps: "sum_list [WATCHER_BPS, OPERATOR_BPS, PUBLIC_GOODS_BPS, SECURITY_RESERVE_BPS] = 10000"
    by (simp add: WATCHER_BPS_def OPERATOR_BPS_def PUBLIC_GOODS_BPS_def
        SECURITY_RESERVE_BPS_def)
  have le: "w + ope + p \<le> totalBalance"
    using prior_shares_le [OF bps, of totalBalance] by (simp add: w_def ope_def p_def)
  have mono: "totalBalance * OPERATOR_BPS \<le> totalBalance * WATCHER_BPS"
    "totalBalance * PUBLIC_GOODS_BPS \<le> totalBalance * WATCHER_BPS"
    by (simp_all add: WATCHER_BPS_def OPERATOR_BPS_def PUBLIC_GOODS_BPS_def)
  have run: "distributeRewards s sender token totalBalance =
      Inr (transfer_T token (watcher s) w @ transfer_T token (operator s) ope @
           transfer_T token (publicGoods s) p @
           transfer_T token (securityReserve s) (totalBalance - w - ope - p))"
    if "roles_T s DISTRIBUTOR_ROLE sender" "0 < totalBalance"
      "totalBalance * WATCHER_BPS \<le> MAX_UINT256"
  proof -
    from that(3) mono have m: "totalBalance * OPERATOR_BPS \<le> MAX_UINT256"
      "totalBalance * PUBLIC_GOODS_BPS \<le> MAX_UINT256"
      by linarith+
    from le have s1: "w \<le> totalBalance" and s2: "ope \<le> totalBalance - w"
      and s3: "p \<le> totalBalance - w - ope"
      by linarith+
    from that m s1 s2 s3 show ?thesis
      by (simp add: distributeRewards_def checked_mul_def checked_sub_def Let_def
          w_def [symmetric] ope_def [symmetric] p_def [symmetric])
  qed
  have split: "spec_split totalBalance [WATCHER_BPS, OPERATOR_BPS, PUBLIC_GOODS_BPS,
             SECURITY_RESERVE_BPS] = Some [w, ope, p, totalBalance - w - ope - p]"
    using bps by (simp add: spec_split_def w_def ope_def p_def)
  have total: "sum_list (map amount_of
          (transfer_T token (watcher s) w @ transfer_T token (operator s) ope @
           transfer_T token (publicGoods s) p @
           transfer_T token (securityReserve s) (totalBalance - w - ope - p))) = totalBalance"
    using le by (simp add: sum_transfer_T)
  have zero: "distributeRewards s sender token 0 = Inl (Revert ''No funds to distribute'')"
    if "roles_T s DISTRIBUTOR_ROLE sender"
    using that by (simp add: distributeRewards_def)
  have over: "distributeRewards s sender token totalBalance = Inl Panic_0x11"
    if "roles_T s DISTRIBUTOR_ROLE sender" "\<not> totalBalance * WATCHER_BPS \<le> MAX_UINT256"
  proof -
    from that(2) have "0 < totalBalance"
      by (cases totalBalance) (simp_all add: MAX_UINT256_def)
    with that show ?thesis
      by (simp add: distributeRewards_def checked_mul_def)
  qed
  from run split total zero over spec_split_exact [of ratiosBps totalAmt] show ?thesis
    unfolding w_def ope_def p_def by blast
qed

theorem distributeRewards_exact_witness:
  "roles_T example_XsrnTreasury DISTRIBUTOR_ROLE 70 \<and> (0::nat) < 1001 \<and>
   1001 * WATCHER_BPS \<le> MAX_UINT256 \<and>
   distributeRewards example_XsrnTreasury 70 30 1001 =
     Inr [SafeTransfer 30 61 400, SafeTransfer 30 62 300, SafeTransfer 30 63 200,
          SafeTransfer 30 64 101] \<and>
   sum_list (map amount_of [SafeTransfer 30 61 400, SafeTransfer 30 62 300,
      SafeTransfer 30 63 200, SafeTransfer 30 64 101]) = 1001 \<and>
   sum_list [5000, 5000 :: nat] = 10000 \<and>
   spec_split 7 [5000, 5000] = Some [3, 4]"
proof -
  have r: "roles_T example_XsrnTreasury DISTRIBUTOR_ROLE 70"
    and b: "1001 * WATCHER_BPS \<le> MAX_UINT256"
    and rs: "sum_list [5000, 5000 :: nat] = 10000"
    by (simp_all add: example_XsrnTreasury_def WATCHER_BPS_def MAX_UINT256_def)
  have pos: "(0::nat) < 1001" by simp
  note inst = distributeRewards_exact [of example_XsrnTreasury 70 1001 30 "[5000, 5000]" 7]
  from inst r pos b
  have "distributeRewards example_XsrnTreasury 70 30 1001 =
      Inr (transfer_T 30 (watcher example_XsrnTreasury) (1001 * WATCHER_BPS div 10000) @
           transfer_T 30 (operator example_XsrnTreasury) (1001 * OPERATOR_BPS div 10000) @
           transfer_T 30 (publicGoods example_XsrnTreasury) (1001 * PUBLIC_GOODS_BPS div 10000) @
           transfer_T 30 (securityReserve example_XsrnTreasury)
             (1001 - 1001 * WATCHER_BPS div 10000 - 1001 * OPERATOR_BPS div 10000 -
              1001 * PUBLIC_GOODS_BPS div 10000))"
    by blast
  then have run: "distributeRewards example_XsrnTreasury 70 30 1001 =
     Inr [SafeTransfer 30 61 400, SafeTransfer 30 62 300, SafeTransfer 30 63 200,
          SafeTransfer 30 64 101]"
    by (simp add: transfer_T_def example_XsrnTreasury_def WATCHER_BPS_def OPERATOR_BPS_def
        PUBLIC_GOODS_BPS_def)
  from inst rs obtain shares where "spec_split 7 [5000, 5000] = Some shares"
    by blast
  then have sp: "spec_split 7 [5000, 5000] = Some [3, 4]"
    by (simp add: spec_split_def)
  from r pos b run rs sp show ?thesis by simp
qed

text \<open>The claim as stated fails on the code at the zero balance, which it names, and at a
  balance of \<open>2 ^ 255\<close>.\<close>

theorem distributeRewards_zero_counterexample:
  "roles_T example_XsrnTreasury DISTRIBUTOR_ROLE 70 \<and>
   distributeRewards example_XsrnTreasury 70 30 0 = Inl (Revert ''No funds to distribute'') \<and>
   distributeRewards example_XsrnTreasury 70 30 (2 ^ 255) = Inl Panic_0x11"
  by (simp add: distributeRewards_def example_XsrnTreasury_def checked_mul_def WATCHER_BPS_def
      MAX_UINT256_def)

section \<open>The status of an attestation\<close>

lemma transact_AttestationRegistry_step:
  assumes "timestamp (attestations s i) \<noteq> 0"
  shows "timestamp (attestations (transact_AttestationRegistry idOf this s tx) i) \<noteq> 0 \<and>
         (status (attestations (transact_AttestationRegistry idOf this s tx) i) =
            status (attestations s i) \<or>
          allowed_transition (status (attestations s i))
            (status (attestations (transact_AttestationRegistry idOf this s tx) i)))"
proof -
  obtain sender now blockNumber c where tx: "tx = (sender, now, blockNumber, c)"
    by (cases tx) auto
  show ?thesis
  proof (cases c)
    case (SubmitAttestation hash bond)
    with tx assms show ?thesis
      by (auto simp: transact_AttestationRegistry_def submitAttestation_def Let_def
          checked_add_def split: if_splits)
  next
    case (Challenge j reason)
    with tx assms show ?thesis
      by (auto simp: transact_AttestationRegistry_def challenge_def Let_def
          intro: allowed_transition.intros split: if_splits)
  next
    case (Arbitrate j ok)
    with tx assms show ?thesis
      by (auto simp: transact_AttestationRegistry_def arbitrate_def Let_def checked_add_def
          checked_mul_def checked_sub_def intro: allowed_transition.intros split: if_splits)
  next
    case (Validate j)
    with tx assms show ?thesis
      by (auto simp: transact_AttestationRegistry_def validate_def Let_def checked_add_def
          intro: allowed_transition.intros split: if_splits)
  next
    case (WithdrawBond j)
    with tx assms show ?thesis
      by (auto simp: transact_AttestationRegistry_def withdrawBond_def Let_def
          intro: allowed_transition.intros split: if_splits)
  next
    case (SetMinBondAmount amount)
    with tx assms show ?thesis
      by (auto simp: transact_AttestationRegistry_def setMinBondAmount_def split: if_splits)
  next
    case (SetChallengePeriod period)
    with tx assms show ?thesis
      by (auto simp: transact_AttestationRegistry_def setChallengePeriod_def split: if_splits)
  next
    case (SetSlashPercentage percentage)
    with tx assms show ?thesis
      by (auto simp: transact_AttestationRegistry_def setSlashPercentage_def split: if_splits)
  qed
qed

lemma run_AttestationRegistry_path:
  assumes "timestamp (attestations s i) \<noteq> 0"
  shows "timestamp (attestations (run_AttestationRegistry idOf this s txs) i) \<noteq> 0 \<and>
         allowed_transition\<^sup>*\<^sup>* (status (attestations s i))
           (status (attestations (run_AttestationRegistry idOf this s txs) i))"
  using assms
proof (induction txs arbitrary: s)
  case Nil
  then show ?case by (simp add: run_AttestationRegistry_def)
next
  case (Cons tx txs)
  let ?s1 = "transact_AttestationRegistry idOf this s tx"
  from transact_AttestationRegistry_step [OF Cons.prems, of idOf this tx]
  have ts: "timestamp (attestations ?s1 i) \<noteq> 0"
    and st: "allowed_transition\<^sup>*\<^sup>* (status (attestations s i)) (status (attestations ?s1 i))"
    by auto
  from Cons.IH [OF ts] st show ?case
    by (auto simp: run_AttestationRegistry_def)
qed

lemma Withdrawn_final: "allowed_transition\<^sup>*\<^sup>* a b \<Longrightarrow> a = Withdrawn \<Longrightarrow> b = Withdrawn"
  by (induction rule: rtranclp_induct) (auto elim: allowed_transition.cases)

lemma Slashed_final: "allowed_transition\<^sup>*\<^sup>* a b \<Longrightarrow> a = Slashed \<Longrightarrow> b = Slashed"
  by (induction rule: rtranclp_induct) (auto elim: allowed_transition.cases)


text \<open>
  Claim C8. The status of an attestation moves only along the listed transitions.
  \<^item> \<open>challenge\<close> succeeds only from \<open>Pending\<close>, at a block time up to the deadline, for a
    caller other than the attester, and leaves \<open>Challenged\<close>; \<open>validate\<close> succeeds only from
    \<open>Pending\<close> after the deadline and leaves \<open>Validated\<close>; \<open>arbitrate\<close> succeeds only from
    \<open>Challenged\<close> and leaves \<open>Slashed\<close> or \<open>Validated\<close>; \<open>withdrawBond\<close> succeeds only from
    \<open>Validated\<close> and leaves \<open>Withdrawn\<close>.
  \<^item> Asked from any other status each of them fails with its reason (challenging a
    \<open>Validated\<close> attestation fails with "Not challengeable"), and a call that fails leaves
    the storage as it was.
  \<^item> For an attestation that exists (its \<open>timestamp\<close> is set), every transaction of the
    registry leaves its status unchanged or moves it along one listed transition, and every
    history of transactions moves it along a path of listed transitions.
\<close>

theorem attestation_transitions:
  "(challenge s sender now i reason = Inr s' \<longrightarrow>
      status (attestations s i) = Pending \<and> now \<le> challengeDeadline (attestations s i) \<and>
      sender \<noteq> attester (attestations s i) \<and> status (attestations s' i) = Challenged) \<and>
   (validate s now i = Inr s' \<longrightarrow>
      status (attestations s i) = Pending \<and> challengeDeadline (attestations s i) < now \<and>
      status (attestations s' i) = Validated) \<and>
   (arbitrate s sender i ok = Inr (s', out) \<longrightarrow>
      status (attestations s i) = Challenged \<and>
      status (attestations s' i) = (if ok then Slashed else Validated)) \<and>
   (withdrawBond s sender i = Inr (s', out) \<longrightarrow>
      status (attestations s i) = Validated \<and> status (attestations s' i) = Withdrawn) \<and>
   (status (attestations s i) \<noteq> Pending \<longrightarrow>
      challenge s sender now i reason =
        Inl (Revert (if timestamp (attestations s i) = 0 then ''Attestation not found''
                     else ''Not challengeable'')) \<and>
      validate s now i = Inl (Revert ''Not pending'')) \<and>
   (status (attestations s i) \<noteq> Challenged \<longrightarrow>
      arbitrate s sender i ok =
        Inl (if roles_AR s ARBITER_ROLE sender then Revert ''Not in challenge''
             else AccessControlUnauthorizedAccount sender ARBITER_ROLE)) \<and>
   (status (attestations s i) \<noteq> Validated \<longrightarrow>
      withdrawBond s sender i =
        Inl (Revert (if sender = attester (attestations s i) then ''Not validated''
                     else ''Not attester''))) \<and>
   (call_AttestationRegistry idOf this s sender now blockNumber c = Inl e \<longrightarrow>
      transact_AttestationRegistry idOf this s (sender, now, blockNumber, c) = s) \<and>
   (timestamp (attestations s i) \<noteq> 0 \<longrightarrow>
      (status (attestations (transact_AttestationRegistry idOf this s tx) i) =
         status (attestations s i) \<or>
       allowed_transition (status (attestations s i))
         (status (attestations (transact_AttestationRegistry idOf this s tx) i))) \<and>
      allowed_transition\<^sup>*\<^sup>* (status (attestations s i))
        (status (attestations (run_AttestationRegistry idOf this s txs) i)))"
proof -
  have c: "status (attestations s i) = Pending \<and> now \<le> challengeDeadline (attestations s i) \<and>
      sender \<noteq> attester (attestations s i) \<and> status (attestations s' i) = Challenged"
    if "challenge s sender now i reason = Inr s'"
    using that by (auto simp: challenge_def Let_def split: if_splits)
  have v: "status (attestations s i) = Pending \<and> challengeDeadline (attestations s i) < now \<and>
      status (attestations s' i) = Validated"
    if "validate s now i = Inr s'"
    using that by (auto simp: validate_def Let_def checked_add_def split: if_splits)
  have a: "status (attestations s i) = Challenged \<and>
      status (attestations s' i) = (if ok then Slashed else Validated)"
    if "arbitrate s sender i ok = Inr (s', out)"
    using that
    by (auto simp: arbitrate_def Let_def checked_add_def checked_mul_def checked_sub_def
        split: if_splits)
  have w: "status (attestations s i) = Validated \<and> status (attestations s' i) = Withdrawn"
    if "withdrawBond s sender i = Inr (s', out)"
    using that by (auto simp: withdrawBond_def Let_def split: if_splits)
  have np: "challenge s sender now i reason =
        Inl (Revert (if timestamp (attestations s i) = 0 then ''Attestation not found''
                     else ''Not challengeable'')) \<and>
      validate s now i = Inl (Revert ''Not pending'')"
    if "status (attestations s i) \<noteq> Pending"
    using that by (simp add: challenge_def validate_def Let_def)
  have nc: "arbitrate s sender i ok =
        Inl (if roles_AR s ARBITER_ROLE sender then Revert ''Not in challenge''
             else AccessControlUnauthorizedAccount sender ARBITER_ROLE)"
    if "status (attestations s i) \<noteq> Challenged"
    using that by (simp add: arbitrate_def Let_def)
  have nv: "withdrawBond s sender i =
        Inl (Revert (if sender = attester (attestations s i) then ''Not validated''
                     else ''Not attester''))"
    if "status (attestations s i) \<noteq> Validated"
    using that by (simp add: withdrawBond_def Let_def)
  have f: "transact_AttestationRegistry idOf this s (sender, now, blockNumber, c) = s"
    if "call_AttestationRegistry idOf this s sender now blockNumber c = Inl e"
    using that by (simp add: transact_AttestationRegistry_def)
  from c v a w np nc nv f transact_AttestationRegistry_step [of s i idOf this tx]
    run_AttestationRegistry_path [of s i idOf this txs]
  show ?thesis by blast
qed


lemma example_attestation_history_run:
  "status (attestations
     (run_AttestationRegistry toy_idOf 99 example_submitted example_attestation_history) 148) =
   Withdrawn"
  by (simp add: run_AttestationRegistry_def example_attestation_history_def
      transact_AttestationRegistry_def challenge_def arbitrate_def withdrawBond_def
      example_submitted_def example_registry_def example_attestation_def example_admin_def
      checked_add_def MAX_UINT256_def Let_def)


theorem attestation_transitions_witness:
  "challenge example_submitted 41 200 148 9 = Inr example_challenged \<and>
   status (attestations example_submitted 148) = Pending \<and>
   200 \<le> challengeDeadline (attestations example_submitted 148) \<and>
   41 \<noteq> attester (attestations example_submitted 148) \<and>
   status (attestations example_challenged 148) = Challenged \<and>
   validate example_submitted 2000 148 = Inr example_validated \<and>
   status (attestations example_validated 148) \<noteq> Pending \<and>
   challenge example_validated 41 2001 148 9 = Inl (Revert ''Not challengeable'') \<and>
   validate example_validated 2001 148 = Inl (Revert ''Not pending'') \<and>
   status (attestations example_submitted 148) \<noteq> Challenged \<and>
   arbitrate example_submitted example_admin 148 True = Inl (Revert ''Not in challenge'') \<and>
   status (attestations example_submitted 148) \<noteq> Validated \<and>
   withdrawBond example_submitted 40 148 = Inl (Revert ''Not validated'') \<and>
   timestamp (attestations example_submitted 148) \<noteq> 0 \<and>
   allowed_transition\<^sup>*\<^sup>* Pending Withdrawn"
proof -
  have e1: "challenge example_submitted 41 200 148 9 = Inr example_challenged"
    by (simp add: challenge_def example_challenged_def example_submitted_def
        example_attestation_def Let_def)
  have e2: "validate example_submitted 2000 148 = Inr example_validated"
    by (simp add: validate_def example_validated_def example_submitted_def
        example_attestation_def example_registry_def checked_add_def MAX_UINT256_def Let_def)
  have v1: "status (attestations example_validated 148) \<noteq> Pending"
    and v2: "timestamp (attestations example_validated 148) \<noteq> 0"
    and s1: "status (attestations example_submitted 148) \<noteq> Challenged"
    and s2: "status (attestations example_submitted 148) \<noteq> Validated"
    and s3: "timestamp (attestations example_submitted 148) \<noteq> 0"
    and s4: "status (attestations example_submitted 148) = Pending"
    and s5: "roles_AR example_submitted ARBITER_ROLE example_admin"
    and s6: "attester (attestations example_submitted 148) = 40"
    by (simp_all add: example_validated_def example_submitted_def example_attestation_def
        example_registry_def)
  from attestation_transitions [of example_submitted 41 200 148 9 example_challenged,
      THEN conjunct1, rule_format, OF e1]
  have a: "status (attestations example_submitted 148) = Pending \<and>
      200 \<le> challengeDeadline (attestations example_submitted 148) \<and>
      41 \<noteq> attester (attestations example_submitted 148) \<and>
      status (attestations example_challenged 148) = Challenged" .
  from attestation_transitions [of example_validated 41 2001 148 9,
      THEN conjunct2, THEN conjunct2, THEN conjunct2, THEN conjunct2, THEN conjunct1,
      rule_format, OF v1] v2
  have b: "challenge example_validated 41 2001 148 9 =
      Inl (Revert ''Not challengeable'') \<and>
      validate example_validated 2001 148 = Inl (Revert ''Not pending'')"
    by simp
  from attestation_transitions [of example_submitted example_admin _ 148 _ _ True,
      THEN conjunct2, THEN conjunct2, THEN conjunct2, THEN conjunct2, THEN conjunct2,
      THEN conjunct1, rule_format, OF s1] s5
  have c: "arbitrate example_submitted example_admin 148 True =
      Inl (Revert ''Not in challenge'')"
    by simp
  from attestation_transitions [of example_submitted 40 _ 148,
      THEN conjunct2, THEN conjunct2, THEN conjunct2, THEN conjunct2, THEN conjunct2,
      THEN conjunct2, THEN conjunct1, rule_format, OF s2] s6
  have d: "withdrawBond example_submitted 40 148 = Inl (Revert ''Not validated'')"
    by simp
  from attestation_transitions [of example_submitted _ _ 148 _ _ _ _ toy_idOf 99 _ _ _ _
      example_attestation_history,
      THEN conjunct2, THEN conjunct2, THEN conjunct2, THEN conjunct2, THEN conjunct2,
      THEN conjunct2, THEN conjunct2, THEN conjunct2, rule_format, OF s3, THEN conjunct2]
  have e: "allowed_transition\<^sup>*\<^sup>* Pending Withdrawn"
    by (simp add: example_attestation_history_run s4)
  from e1 a e2 v1 b s1 c s2 d s3 e show ?thesis by blast
qed

section \<open>Slashing a bond\<close>

lemma transact_AttestationRegistry_slashPercentage:
  assumes "slashPercentage s \<le> 10000"
  shows "slashPercentage (transact_AttestationRegistry idOf this s tx) \<le> 10000"
proof -
  obtain sender now blockNumber c where tx: "tx = (sender, now, blockNumber, c)"
    by (cases tx) auto
  from assms show ?thesis
    unfolding tx
    by (cases c)
      (auto simp: transact_AttestationRegistry_def submitAttestation_def challenge_def
        arbitrate_def validate_def withdrawBond_def setMinBondAmount_def
        setChallengePeriod_def setSlashPercentage_def Let_def checked_add_def checked_mul_def
        checked_sub_def split: if_splits)
qed

lemma run_AttestationRegistry_slashPercentage:
  "slashPercentage s \<le> 10000 \<Longrightarrow>
   slashPercentage (run_AttestationRegistry idOf this s txs) \<le> 10000"
  unfolding run_AttestationRegistry_def
  by (induction txs arbitrary: s) (auto intro: transact_AttestationRegistry_slashPercentage)

lemma slash_le_bond:
  assumes "p \<le> (10000::nat)"
  shows "B * p div 10000 \<le> B"
proof -
  from assms have "B * p div 10000 \<le> B * 10000 div 10000"
    by (intro div_le_mono mult_le_mono2)
  then show ?thesis by simp
qed

text \<open>
  Claim C6, as amended. For an attestation in status \<open>Challenged\<close> with bond \<open>B\<close>, in a
  registry with slash percentage \<open>p\<close> (at most 10000 in every state reached from the
  constructor), and provided the checked product \<open>B * p\<close> and the two counters stay within
  \<^verbatim>\<open>uint256\<close>, \<open>arbitrate\<close> called by an arbiter with \<open>challengeSucceeded = true\<close> sets
  the status to \<open>Slashed\<close>, raises the attester's slash count and the challenger's win count by
  one, and pays \<open>B * p div 10000\<close> to the challenger and \<open>B\<close> minus that to the attester: a
  transfer for each of the two amounts that is not zero, the two summing to \<open>B\<close>. With
  \<open>p = 5000\<close> the amounts are \<open>B div 2\<close> and \<open>B - B div 2\<close>. When the product \<open>B * p\<close> or
  a counter leaves \<^verbatim>\<open>uint256\<close>, the call aborts with the arithmetic panic, pays nothing
  and leaves the attestation \<open>Challenged\<close>.
\<close>

theorem arbitrate_slash:
  "(status (attestations s i) = Challenged \<and> roles_AR s ARBITER_ROLE sender \<and>
    slashPercentage s \<le> 10000 \<and>
    bondAmount (attestations s i) * slashPercentage s \<le> MAX_UINT256 \<and>
    attesterSlashCount s (attester (attestations s i)) < MAX_UINT256 \<and>
    challengerWinCount s (challenger (attestations s i)) < MAX_UINT256 \<longrightarrow>
      (let att = attestations s i;
           slashAmount = bondAmount att * slashPercentage s div 10000;
           refundAmount = bondAmount att - slashAmount
       in \<exists>s' out.
            arbitrate s sender i True = Inr (s', out) \<and>
            out = (if 0 < slashAmount
                   then [SafeTransfer (bondToken s) (challenger att) slashAmount] else []) @
                  (if 0 < refundAmount
                   then [SafeTransfer (bondToken s) (attester att) refundAmount] else []) \<and>
            slashAmount + refundAmount = bondAmount att \<and>
            sum_list (map amount_of out) = bondAmount att \<and>
            status (attestations s' i) = Slashed \<and>
            attesterSlashCount s' (attester att) = attesterSlashCount s (attester att) + 1 \<and>
            challengerWinCount s' (challenger att) =
              challengerWinCount s (challenger att) + 1 \<and>
            (slashPercentage s = 5000 \<longrightarrow>
               slashAmount = bondAmount att div 2 \<and>
               refundAmount = bondAmount att - bondAmount att div 2))) \<and>
   (status (attestations s i) = Challenged \<and> roles_AR s ARBITER_ROLE sender \<and>
    (\<not> bondAmount (attestations s i) * slashPercentage s \<le> MAX_UINT256 \<or>
     \<not> attesterSlashCount s (attester (attestations s i)) < MAX_UINT256 \<or>
     \<not> challengerWinCount s (challenger (attestations s i)) < MAX_UINT256) \<longrightarrow>
      arbitrate s sender i True = Inl Panic_0x11) \<and>
   (constructor_AttestationRegistry admin token minBond period percentage = Inr s0 \<longrightarrow>
      slashPercentage (run_AttestationRegistry idOf this s0 txs) \<le> 10000)"
proof -
  define att where "att = attestations s i"
  define slashAmount where "slashAmount = bondAmount att * slashPercentage s div 10000"
  define refundAmount where "refundAmount = bondAmount att - slashAmount"
  define out where "out =
      (if 0 < slashAmount then [SafeTransfer (bondToken s) (challenger att) slashAmount] else []) @
      (if 0 < refundAmount then [SafeTransfer (bondToken s) (attester att) refundAmount] else [])"
  define s' where "s' =
      s\<lparr>attestations := (attestations s)(i := att\<lparr>status := Slashed\<rparr>),
        attesterSlashCount := (attesterSlashCount s)(attester att :=
          attesterSlashCount s (attester att) + 1),
        challengerWinCount := (challengerWinCount s)(challenger att :=
          challengerWinCount s (challenger att) + 1)\<rparr>"
  have main: "arbitrate s sender i True = Inr (s', out) \<and>
      slashAmount + refundAmount = bondAmount att \<and>
      sum_list (map amount_of out) = bondAmount att \<and>
      status (attestations s' i) = Slashed \<and>
      attesterSlashCount s' (attester att) = attesterSlashCount s (attester att) + 1 \<and>
      challengerWinCount s' (challenger att) = challengerWinCount s (challenger att) + 1 \<and>
      (slashPercentage s = 5000 \<longrightarrow>
         slashAmount = bondAmount att div 2 \<and>
         refundAmount = bondAmount att - bondAmount att div 2)"
    if h: "status (attestations s i) = Challenged" "roles_AR s ARBITER_ROLE sender"
      "slashPercentage s \<le> 10000"
      "bondAmount (attestations s i) * slashPercentage s \<le> MAX_UINT256"
      "attesterSlashCount s (attester (attestations s i)) < MAX_UINT256"
      "challengerWinCount s (challenger (attestations s i)) < MAX_UINT256"
  proof -
    from h(3) have le: "slashAmount \<le> bondAmount att"
      unfolding slashAmount_def by (rule slash_le_bond)
    from h le have run: "arbitrate s sender i True = Inr (s', out)"
      by (simp add: arbitrate_def Let_def checked_add_def checked_mul_def checked_sub_def
          att_def [symmetric] slashAmount_def [symmetric] refundAmount_def [symmetric]
          out_def s'_def)
    from le have sum: "slashAmount + refundAmount = bondAmount att"
      by (simp add: refundAmount_def)
    then have paid: "sum_list (map amount_of out) = bondAmount att"
      by (simp add: out_def)
    have half: "slashAmount = bondAmount att div 2" if "slashPercentage s = 5000"
      using that by (simp add: slashAmount_def)
    from run sum paid half show ?thesis
      by (simp add: s'_def refundAmount_def)
  qed
  have inv: "slashPercentage (run_AttestationRegistry idOf this s0 txs) \<le> 10000"
    if "constructor_AttestationRegistry admin token minBond period percentage = Inr s0"
  proof -
    from that have "slashPercentage s0 \<le> 10000"
      by (auto simp: constructor_AttestationRegistry_def split: if_splits)
    then show ?thesis by (rule run_AttestationRegistry_slashPercentage)
  qed
  have over: "arbitrate s sender i True = Inl Panic_0x11"
    if "status (attestations s i) = Challenged" "roles_AR s ARBITER_ROLE sender"
      "\<not> bondAmount (attestations s i) * slashPercentage s \<le> MAX_UINT256 \<or>
       \<not> attesterSlashCount s (attester (attestations s i)) < MAX_UINT256 \<or>
       \<not> challengerWinCount s (challenger (attestations s i)) < MAX_UINT256"
    using that
    by (auto simp: arbitrate_def Let_def checked_add_def checked_mul_def)
  from main inv over show ?thesis
    unfolding Let_def att_def slashAmount_def refundAmount_def out_def
    by blast
qed


theorem arbitrate_slash_witness:
  "status (attestations example_challenged 148) = Challenged \<and>
   roles_AR example_challenged ARBITER_ROLE example_admin \<and>
   slashPercentage example_challenged = 5000 \<and>
   bondAmount (attestations example_challenged 148) = 101 \<and>
   bondAmount (attestations example_challenged 148) * slashPercentage example_challenged
     \<le> MAX_UINT256 \<and>
   attesterSlashCount example_challenged (attester (attestations example_challenged 148))
     < MAX_UINT256 \<and>
   challengerWinCount example_challenged (challenger (attestations example_challenged 148))
     < MAX_UINT256 \<and>
   arbitrate example_challenged example_admin 148 True =
     Inr (example_slashed, [SafeTransfer 30 41 50, SafeTransfer 30 40 51]) \<and>
   status (attestations example_slashed 148) = Slashed \<and>
   attesterSlashCount example_slashed 40 = 1 \<and>
   challengerWinCount example_slashed 41 = 1 \<and>
   constructor_AttestationRegistry example_admin 30 50 1000 5000 = Inr example_registry \<and>
   slashPercentage (run_AttestationRegistry toy_idOf 99 example_registry
       [(example_admin, 10, 1, SetSlashPercentage 10001),
        (example_admin, 11, 1, SetSlashPercentage 2500)]) \<le> 10000"
proof -
  have h1: "status (attestations example_challenged 148) = Challenged"
    and h2: "roles_AR example_challenged ARBITER_ROLE example_admin"
    and h3: "slashPercentage example_challenged = 5000"
    and h4: "bondAmount (attestations example_challenged 148) = 101"
    and h5: "attesterSlashCount example_challenged
        (attester (attestations example_challenged 148)) < MAX_UINT256"
    and h6: "challengerWinCount example_challenged
        (challenger (attestations example_challenged 148)) < MAX_UINT256"
    and h7: "attester (attestations example_challenged 148) = 40"
    and h8: "challenger (attestations example_challenged 148) = 41"
    and h9: "bondToken example_challenged = 30"
    by (simp_all add: example_challenged_def example_submitted_def example_attestation_def
        example_registry_def MAX_UINT256_def)
  have h10: "bondAmount (attestations example_challenged 148) *
      slashPercentage example_challenged \<le> MAX_UINT256"
    and h11: "slashPercentage example_challenged \<le> 10000"
    by (simp_all add: h3 h4 MAX_UINT256_def)
  have c: "constructor_AttestationRegistry example_admin 30 50 1000 5000 = Inr example_registry"
    by (simp add: constructor_AttestationRegistry_def example_registry_def)
  note inst = arbitrate_slash [of example_challenged 148 example_admin example_admin 30 50 1000
      5000 example_registry toy_idOf 99
      "[(example_admin, 10, 1, SetSlashPercentage 10001),
        (example_admin, 11, 1, SetSlashPercentage 2500)]"]
  from inst [THEN conjunct1, rule_format, unfolded Let_def] h1 h2 h11 h10 h5 h6
  obtain s' out where run: "arbitrate example_challenged example_admin 148 True = Inr (s', out)"
    and st: "status (attestations s' 148) = Slashed"
    by blast
  have sc: "attesterSlashCount example_slashed 40 = 1"
    and wc: "challengerWinCount example_slashed 41 = 1"
    by (simp_all add: example_slashed_def)
  have ev: "arbitrate example_challenged example_admin 148 True =
      Inr (example_slashed, [SafeTransfer 30 41 50, SafeTransfer 30 40 51])"
    by (simp add: arbitrate_def example_slashed_def example_challenged_def
        example_submitted_def example_attestation_def example_registry_def checked_add_def
        checked_mul_def checked_sub_def MAX_UINT256_def Let_def)
  with run have eq: "s' = example_slashed" by simp
  from inst [THEN conjunct2, THEN conjunct2, rule_format, OF c]
  have inv: "slashPercentage (run_AttestationRegistry toy_idOf 99 example_registry
       [(example_admin, 10, 1, SetSlashPercentage 10001),
        (example_admin, 11, 1, SetSlashPercentage 2500)]) \<le> 10000" .
  from st have st': "status (attestations example_slashed 148) = Slashed"
    unfolding eq .
  from h1 h2 h3 h4 h10 h5 h6 ev st' sc wc c inv show ?thesis
    by blast
qed

lemma example_large_bond_eq:
  "example_large_bond =
     example_registry
       \<lparr>attestations := (attestations example_registry)(148 :=
          \<lparr>attester = 40, contentHash = 7, bondAmount = 2 ^ 255, timestamp = 100,
           challengeDeadline = 1100, status = Challenged, challenger = 41,
           challengeReason = 9\<rparr>),
        attestationIds := [148]\<rparr>"
  by (simp add: example_large_bond_def run_AttestationRegistry_def
      transact_AttestationRegistry_def submitAttestation_def challenge_def toy_idOf_def
      example_registry_def zero_Attestation_def checked_add_def MAX_UINT256_def Let_def)

text \<open>
  The claim as stated, for every bond, fails on the code in a state reached from the
  constructor: for a challenged attestation with a bond of \<open>2 ^ 255\<close> and the slash percentage
  5000, \<open>arbitrate\<close> with \<open>challengeSucceeded = true\<close> aborts with the arithmetic panic of
  the product, and the attestation stays \<open>Challenged\<close>.
\<close>

theorem arbitrate_overflow_counterexample:
  "constructor_AttestationRegistry example_admin 30 50 1000 5000 = Inr example_registry \<and>
   status (attestations example_large_bond 148) = Challenged \<and>
   bondAmount (attestations example_large_bond 148) = 2 ^ 255 \<and>
   bondAmount (attestations example_large_bond 148) \<le> MAX_UINT256 \<and>
   slashPercentage example_large_bond = 5000 \<and>
   roles_AR example_large_bond ARBITER_ROLE example_admin \<and>
   arbitrate example_large_bond example_admin 148 True = Inl Panic_0x11 \<and>
   status (attestations
     (transact_AttestationRegistry toy_idOf 99 example_large_bond
        (example_admin, 300, 3, Arbitrate 148 True)) 148) = Challenged"
proof -
  have c: "constructor_AttestationRegistry example_admin 30 50 1000 5000 = Inr example_registry"
    by (simp add: constructor_AttestationRegistry_def example_registry_def)
  have st: "status (attestations example_large_bond 148) = Challenged"
    and b: "bondAmount (attestations example_large_bond 148) = 2 ^ 255"
    and p: "slashPercentage example_large_bond = 5000"
    and r: "roles_AR example_large_bond ARBITER_ROLE example_admin"
    and sc: "attesterSlashCount example_large_bond
               (attester (attestations example_large_bond 148)) = 0"
    and wc: "challengerWinCount example_large_bond
               (challenger (attestations example_large_bond 148)) = 0"
    by (simp_all add: example_large_bond_eq example_registry_def)
  from b have le: "bondAmount (attestations example_large_bond 148) \<le> MAX_UINT256"
    by (simp add: MAX_UINT256_def)
  from st b p r sc wc
  have a: "arbitrate example_large_bond example_admin 148 True = Inl Panic_0x11"
    by (simp add: arbitrate_def Let_def checked_add_def checked_mul_def MAX_UINT256_def)
  from a st have u: "status (attestations
     (transact_AttestationRegistry toy_idOf 99 example_large_bond
        (example_admin, 300, 3, Arbitrate 148 True)) 148) = Challenged"
    by (simp add: transact_AttestationRegistry_def)
  from c st b le p r a u show ?thesis by simp
qed
section \<open>Recovering a bond\<close>

lemma Withdrawn_stays:
  assumes "timestamp (attestations s i) \<noteq> 0" and "status (attestations s i) = Withdrawn"
  shows "status (attestations (run_AttestationRegistry idOf this s txs) i) = Withdrawn"
  using run_AttestationRegistry_path [OF assms(1), of idOf this txs] assms(2)
  by (auto dest: Withdrawn_final)

text \<open>
  Claim C7. \<open>submitAttestation\<close> with a bond \<open>B > 0\<close> stores the attestation as \<open>Pending\<close>
  with bond \<open>B\<close> and the caller as attester, and requests the transfer of \<open>B\<close> from the
  caller to the registry. For a \<open>Pending\<close> attestation with bond \<open>B > 0\<close> whose deadline has
  passed, \<open>validate\<close> leaves it \<open>Validated\<close> (the attester's valid count, raised by one,
  staying within \<^verbatim>\<open>uint256\<close>); \<open>withdrawBond\<close> by the attester then requests one transfer
  of exactly \<open>B\<close> to the attester, sets the status to \<open>Withdrawn\<close> and the stored bond to
  zero; a second \<open>withdrawBond\<close> fails with "Not validated", and \<open>withdrawBond\<close> for this
  attestation fails after every later history of transactions, for every caller.
  \<open>withdrawBond\<close> by anyone but the attester fails with "Not attester", and from any status
  other than \<open>Validated\<close> it fails.
\<close>

theorem bond_recovered:
  "(0 < bond \<and>
    submitAttestation idOf this s0 account now0 blockNumber hash bond = Inr (s, i, out) \<longrightarrow>
      attestations s i =
        \<lparr>attester = account, contentHash = hash, bondAmount = bond, timestamp = now0,
         challengeDeadline = now0 + challengePeriod s0, status = Pending, challenger = 0,
         challengeReason = 0\<rparr> \<and>
      out = [SafeTransferFrom (bondToken s0) account this bond] \<and>
      bondToken s = bondToken s0) \<and>
   (status (attestations s i) = Pending \<and> challengeDeadline (attestations s i) < now \<and>
    0 < bondAmount (attestations s i) \<and>
    attesterValidCount s (attester (attestations s i)) < MAX_UINT256 \<longrightarrow>
      (\<exists>s1 s2.
         validate s now i = Inr s1 \<and>
         status (attestations s1 i) = Validated \<and>
         withdrawBond s1 (attester (attestations s i)) i =
           Inr (s2, [SafeTransfer (bondToken s) (attester (attestations s i))
                       (bondAmount (attestations s i))]) \<and>
         status (attestations s2 i) = Withdrawn \<and>
         bondAmount (attestations s2 i) = 0 \<and>
         withdrawBond s2 (attester (attestations s i)) i = Inl (Revert ''Not validated'') \<and>
         (timestamp (attestations s i) \<noteq> 0 \<longrightarrow>
            isl (withdrawBond (run_AttestationRegistry idOf this s2 txs) sender i)))) \<and>
   (sender \<noteq> attester (attestations s i) \<longrightarrow>
      withdrawBond s sender i = Inl (Revert ''Not attester'')) \<and>
   (status (attestations s i) \<noteq> Validated \<longrightarrow>
      withdrawBond s sender i =
        Inl (Revert (if sender = attester (attestations s i) then ''Not validated''
                     else ''Not attester'')))"
proof -
  define att where "att = attestations s i"
  define s1 where "s1 =
      s\<lparr>attestations := (attestations s)(i := att\<lparr>status := Validated\<rparr>),
        attesterValidCount := (attesterValidCount s)(attester att :=
          attesterValidCount s (attester att) + 1)\<rparr>"
  define s2 where "s2 =
      s1\<lparr>attestations := (attestations s1)(i :=
         (attestations s1 i)\<lparr>bondAmount := 0, status := Withdrawn\<rparr>)\<rparr>"
  have sub: "attestations s i =
        \<lparr>attester = account, contentHash = hash, bondAmount = bond, timestamp = now0,
         challengeDeadline = now0 + challengePeriod s0, status = Pending, challenger = 0,
         challengeReason = 0\<rparr> \<and>
      out = [SafeTransferFrom (bondToken s0) account this bond] \<and>
      bondToken s = bondToken s0"
    if "0 < bond"
      "submitAttestation idOf this s0 account now0 blockNumber hash bond = Inr (s, i, out)"
    using that
    by (auto simp: submitAttestation_def Let_def checked_add_def split: if_splits)
  have life: "validate s now i = Inr s1 \<and>
         status (attestations s1 i) = Validated \<and>
         withdrawBond s1 (attester att) i =
           Inr (s2, [SafeTransfer (bondToken s) (attester att) (bondAmount att)]) \<and>
         status (attestations s2 i) = Withdrawn \<and>
         bondAmount (attestations s2 i) = 0 \<and>
         withdrawBond s2 (attester att) i = Inl (Revert ''Not validated'') \<and>
         (timestamp att \<noteq> 0 \<longrightarrow>
            isl (withdrawBond (run_AttestationRegistry idOf this s2 txs) sender i))"
    if h: "status (attestations s i) = Pending" "challengeDeadline (attestations s i) < now"
      "0 < bondAmount (attestations s i)"
      "attesterValidCount s (attester (attestations s i)) < MAX_UINT256"
  proof -
    from h have v: "validate s now i = Inr s1"
      by (simp add: validate_def Let_def checked_add_def att_def [symmetric] s1_def)
    have a1: "attestations s1 i = att\<lparr>status := Validated\<rparr>"
      by (simp add: s1_def)
    from h have w: "withdrawBond s1 (attester att) i =
           Inr (s2, [SafeTransfer (bondToken s) (attester att) (bondAmount att)])"
      by (simp add: withdrawBond_def Let_def a1 att_def [symmetric] s2_def) (simp add: s1_def)
    have a2: "attestations s2 i = att\<lparr>bondAmount := 0, status := Withdrawn\<rparr>"
      by (simp add: s2_def a1)
    have w2: "withdrawBond s2 (attester att) i = Inl (Revert ''Not validated'')"
      by (simp add: withdrawBond_def Let_def a2)
    have forever: "isl (withdrawBond (run_AttestationRegistry idOf this s2 txs) sender i)"
      if "timestamp att \<noteq> 0"
    proof -
      from that have "timestamp (attestations s2 i) \<noteq> 0" by (simp add: a2)
      moreover have "status (attestations s2 i) = Withdrawn" by (simp add: a2)
      ultimately have "status (attestations (run_AttestationRegistry idOf this s2 txs) i) =
          Withdrawn"
        by (rule Withdrawn_stays)
      then show ?thesis by (simp add: withdrawBond_def Let_def)
    qed
    from v w w2 forever show ?thesis by (simp add: a1 a2)
  qed
  have other: "withdrawBond s sender i = Inl (Revert ''Not attester'')"
    if "sender \<noteq> attester (attestations s i)"
    using that by (simp add: withdrawBond_def Let_def)
  have nv: "withdrawBond s sender i =
        Inl (Revert (if sender = attester (attestations s i) then ''Not validated''
                     else ''Not attester''))"
    if "status (attestations s i) \<noteq> Validated"
    using that by (simp add: withdrawBond_def Let_def)
  from sub life other nv show ?thesis
    unfolding att_def by blast
qed


theorem bond_recovered_witness:
  "(0::nat) < 101 \<and>
   submitAttestation toy_idOf 99 example_registry 40 100 1 7 101 =
     Inr (example_submitted, 148, [SafeTransferFrom 30 40 99 101]) \<and>
   attestations example_submitted 148 = example_attestation \<and>
   status (attestations example_submitted 148) = Pending \<and>
   challengeDeadline (attestations example_submitted 148) < 1101 \<and>
   0 < bondAmount (attestations example_submitted 148) \<and>
   attesterValidCount example_submitted (attester (attestations example_submitted 148))
     < MAX_UINT256 \<and>
   validate example_submitted 1101 148 = Inr example_validated \<and>
   withdrawBond example_validated 40 148 = Inr (example_withdrawn, [SafeTransfer 30 40 101]) \<and>
   status (attestations example_withdrawn 148) = Withdrawn \<and>
   bondAmount (attestations example_withdrawn 148) = 0 \<and>
   withdrawBond example_withdrawn 40 148 = Inl (Revert ''Not validated'') \<and>
   41 \<noteq> attester (attestations example_validated 148) \<and>
   withdrawBond example_validated 41 148 = Inl (Revert ''Not attester'') \<and>
   status (attestations example_challenged 148) \<noteq> Validated \<and>
   withdrawBond example_challenged 40 148 = Inl (Revert ''Not validated'')"
proof -
  have pos: "(0::nat) < 101" by simp
  have sub: "submitAttestation toy_idOf 99 example_registry 40 100 1 7 101 =
     Inr (example_submitted, 148, [SafeTransferFrom 30 40 99 101])"
    by (simp add: submitAttestation_def toy_idOf_def example_registry_def
        example_submitted_def example_attestation_def zero_Attestation_def checked_add_def
        MAX_UINT256_def Let_def)
  have h1: "status (attestations example_submitted 148) = Pending"
    and h2: "challengeDeadline (attestations example_submitted 148) < 1101"
    and h3: "0 < bondAmount (attestations example_submitted 148)"
    and h4: "attesterValidCount example_submitted
        (attester (attestations example_submitted 148)) < MAX_UINT256"
    and h5: "attester (attestations example_submitted 148) = 40"
    and h6: "bondToken example_submitted = 30"
    and h7: "bondAmount (attestations example_submitted 148) = 101"
    and h8: "41 \<noteq> attester (attestations example_validated 148)"
    and h9: "status (attestations example_challenged 148) \<noteq> Validated"
    and h10: "attester (attestations example_challenged 148) = 40"
    and h11: "challengePeriod example_registry = 1000"
    by (simp_all add: example_submitted_def example_validated_def example_challenged_def
        example_attestation_def example_registry_def MAX_UINT256_def)
  from bond_recovered [of 101 toy_idOf 99 example_registry 40 100 1 7 example_submitted 148
      "[SafeTransferFrom 30 40 99 101]", THEN conjunct1, rule_format, OF conjI, OF pos sub]
  have a: "attestations example_submitted 148 = example_attestation"
    by (simp add: example_attestation_def h11)
  have v: "validate example_submitted 1101 148 = Inr example_validated"
    by (simp add: validate_def example_validated_def example_submitted_def
        example_attestation_def example_registry_def checked_add_def MAX_UINT256_def Let_def)
  from bond_recovered [of _ _ _ _ _ _ _ _ example_submitted 148 _ 1101,
      THEN conjunct2, THEN conjunct1, rule_format, OF conjI, OF h1 conjI, OF h2 conjI,
      OF h3 h4]
  obtain s1 s2 where v': "validate example_submitted 1101 148 = Inr s1"
    and w': "withdrawBond s1 40 148 = Inr (s2, [SafeTransfer 30 40 101])"
    and st: "status (attestations s2 148) = Withdrawn"
    and b0: "bondAmount (attestations s2 148) = 0"
    and w2: "withdrawBond s2 40 148 = Inl (Revert ''Not validated'')"
    unfolding h5 h6 h7 by blast
  from v v' have s1: "s1 = example_validated" by simp
  have w: "withdrawBond example_validated 40 148 =
      Inr (example_withdrawn, [SafeTransfer 30 40 101])"
    by (simp add: withdrawBond_def example_withdrawn_def example_validated_def
        example_submitted_def example_attestation_def example_registry_def Let_def)
  with w' s1 have s2: "s2 = example_withdrawn" by simp
  from bond_recovered [of _ _ _ _ _ _ _ _ example_validated 148 _ _ _ 41,
      THEN conjunct2, THEN conjunct2, THEN conjunct1, rule_format, OF h8]
  have o: "withdrawBond example_validated 41 148 = Inl (Revert ''Not attester'')" .
  from bond_recovered [of _ _ _ _ _ _ _ _ example_challenged 148 _ _ _ 40,
      THEN conjunct2, THEN conjunct2, THEN conjunct2, rule_format, OF h9]
  have n: "withdrawBond example_challenged 40 148 = Inl (Revert ''Not validated'')"
    by (simp add: h10)
  from pos sub a h1 h2 h3 h4 v w st b0 w2 h8 o h9 n show ?thesis
    unfolding s2 by blast
qed

section \<open>Proofs of the generator against its own verification\<close>

text \<open>
  Claim C1 asks that \<open>verify\<close> accepts, for every entry, the proof that \<open>generate\<close> stored for
  it. For the set with the one entry (address 1, amount 100) \<open>generate\<close> returns as root the
  leaf of the tree, the hash of the hash of the encoded entry, and the empty proof; \<open>verify\<close>
  starts from the hash of the encoded entry, hashed once, and compares it with that root. So
  \<open>verify\<close> answers true only if \<open>keccak256\<close> maps the encoded entry and its own hash to
  the same value.
\<close>

lemma example_abi_encode: "abi_encode 1 100 = Inr example_encoded"
  by (simp add: abi_encode_def example_encoded_def)

theorem single_entry_proof_rejected:
  "generate keccak256 [example_entry] =
     Inr \<lparr>result_root = keccak256 (to_bytes32 (keccak256 example_encoded)),
          result_proofs = [1 \<mapsto> []],
          result_entries = [example_entry]\<rparr> \<and>
   verify keccak256 (keccak256 (to_bytes32 (keccak256 example_encoded))) 1 100 [] =
     Inr (keccak256 example_encoded = keccak256 (to_bytes32 (keccak256 example_encoded)))"
  by (simp add: generate_def StandardMerkleTree_of_def standardLeafHash_def example_abi_encode
      makeMerkleTree_def tree_getProof_def tree_root_def processProof_def leafIndexOf_def
      verify_def example_entry_def Let_def)


subsection \<open>The proofs of the tree library\<close>

lemma hashPair_commute: "hashPair K a b = hashPair K b a"
  by (simp add: hashPair_def min.commute max.commute)

lemma processProof_Cons:
  "processProof K leaf (x # xs) = processProof K (hashPair K leaf x) xs"
  by (simp add: processProof_def)

lemma build_nodes:
  fixes t :: "bytes32 list"
  assumes "m \<le> length t"
  shows "length (foldl (hashNode K) t (rev [0..<m])) = length t \<and>
         (\<forall>k\<ge>m. foldl (hashNode K) t (rev [0..<m]) ! k = t ! k) \<and>
         (\<forall>i<m. foldl (hashNode K) t (rev [0..<m]) ! i =
            hashPair K (foldl (hashNode K) t (rev [0..<m]) ! leftChildIndex i)
              (foldl (hashNode K) t (rev [0..<m]) ! rightChildIndex i))"
  using assms
proof (induction m arbitrary: t)
  case 0
  then show ?case by simp
next
  case (Suc m)
  define t1 where "t1 = hashNode K t m"
  define t' where "t' = foldl (hashNode K) t1 (rev [0..<m])"
  have eq: "foldl (hashNode K) t (rev [0..<Suc m]) = t'"
    by (simp add: t'_def t1_def)
  have len1: "length t1 = length t" by (simp add: t1_def hashNode_def)
  with Suc.prems have m: "m \<le> length t1" by simp
  from Suc.IH [OF m]
  have len: "length t' = length t1" and keep: "\<forall>k\<ge>m. t' ! k = t1 ! k"
    and inv: "\<forall>i<m. t' ! i = hashPair K (t' ! leftChildIndex i) (t' ! rightChildIndex i)"
    unfolding t'_def by blast+
  have other: "t1 ! k = t ! k" if "k \<noteq> m" for k
    using that by (simp add: t1_def hashNode_def)
  have l: "t' ! leftChildIndex m = t ! leftChildIndex m"
    using keep other [of "leftChildIndex m"] by (simp add: leftChildIndex_def)
  have r: "t' ! rightChildIndex m = t ! rightChildIndex m"
    using keep other [of "rightChildIndex m"] by (simp add: rightChildIndex_def)
  from keep have "t' ! m = t1 ! m" by simp
  also from Suc.prems have "\<dots> = hashPair K (t ! leftChildIndex m) (t ! rightChildIndex m)"
    by (simp add: t1_def hashNode_def)
  finally have at_m: "t' ! m = hashPair K (t' ! leftChildIndex m) (t' ! rightChildIndex m)"
    by (simp add: l r)
  have keep': "\<forall>k\<ge>Suc m. t' ! k = t ! k"
    using keep other by simp
  have inv': "\<forall>i<Suc m. t' ! i = hashPair K (t' ! leftChildIndex i) (t' ! rightChildIndex i)"
    using inv at_m by (auto simp: less_Suc_eq)
  from len len1 keep' inv' show ?case unfolding eq by simp
qed

lemma makeMerkleTree_nodes:
  assumes "leaves \<noteq> []"
  shows "\<exists>nodes. makeMerkleTree K leaves = Inr nodes \<and>
           length nodes = 2 * length leaves - 1 \<and>
           (\<forall>j<length leaves. nodes ! (2 * length leaves - 2 - j) = leaves ! j) \<and>
           (\<forall>i<length leaves - 1.
              nodes ! i = hashPair K (nodes ! leftChildIndex i) (nodes ! rightChildIndex i))"
proof -
  define n where "n = length leaves"
  define t0 where "t0 = replicate (n - 1) (0 :: bytes32) @ rev leaves"
  define t where "t = foldl (hashNode K) t0 (rev [0..<n - 1])"
  from assms have n: "0 < n" by (simp add: n_def)
  have len0: "length t0 = 2 * n - 1" using n by (simp add: t0_def n_def)
  then have m: "n - 1 \<le> length t0" by simp
  from build_nodes [OF m, of K]
  have len: "length t = length t0" and keep: "\<forall>k\<ge>n - 1. t ! k = t0 ! k"
    and inv: "\<forall>i<n - 1. t ! i = hashPair K (t ! leftChildIndex i) (t ! rightChildIndex i)"
    unfolding t_def by blast+
  have leaf: "t ! (2 * n - 2 - j) = leaves ! j" if "j < n" for j
  proof -
    from that have ge: "n - 1 \<le> 2 * n - 2 - j" by simp
    with keep have "t ! (2 * n - 2 - j) = t0 ! (2 * n - 2 - j)" by simp
    also have "\<dots> = rev leaves ! (n - 1 - j)"
    proof -
      from that have "\<not> 2 * n - 2 - j < n - 1" and "2 * n - 2 - j - (n - 1) = n - 1 - j"
        by arith+
      then show ?thesis by (simp add: t0_def nth_append)
    qed
    also from that have "\<dots> = leaves ! j"
      by (simp add: rev_nth n_def)
    finally show ?thesis .
  qed
  from assms have mk: "makeMerkleTree K leaves = Inr t"
    by (simp add: makeMerkleTree_def t_def t0_def n_def)
  from len len0 have "length t = 2 * n - 1" by simp
  with mk leaf inv show ?thesis
    unfolding n_def by blast
qed

lemma getProof_tree_root:
  assumes "\<forall>i<n - 1. nodes ! i = hashPair K (nodes ! leftChildIndex i) (nodes ! rightChildIndex i)"
    and "index < 2 * n - 1"
  shows "processProof K (nodes ! index) (getProof_tree nodes index) = nodes ! 0"
  using assms
proof (induction nodes index rule: getProof_tree.induct)
  case (1 tree index)
  show ?case
  proof (cases "0 < index")
    case False
    then show ?thesis by (simp add: processProof_def)
  next
    case True
    define p where "p = parentIndex index"
    from True "1.prems"(2) have p: "p < n - 1" and p': "p < 2 * n - 1"
      by (auto simp: p_def parentIndex_def)
    from True have ch: "index = leftChildIndex p \<and> siblingIndex index = rightChildIndex p \<or>
        index = rightChildIndex p \<and> siblingIndex index = leftChildIndex p"
      unfolding p_def parentIndex_def leftChildIndex_def rightChildIndex_def siblingIndex_def
      by (cases "even index") (auto elim!: evenE oddE)
    from "1.prems"(1) p
    have node: "tree ! p = hashPair K (tree ! leftChildIndex p) (tree ! rightChildIndex p)"
      by blast
    from ch node have up: "hashPair K (tree ! index) (tree ! siblingIndex index) = tree ! p"
      by (auto simp: hashPair_commute)
    from True have "getProof_tree tree index =
        tree ! siblingIndex index # getProof_tree tree (parentIndex index)"
      by simp
    then have "processProof K (tree ! index) (getProof_tree tree index) =
        processProof K (tree ! p) (getProof_tree tree p)"
      by (simp only: processProof_Cons up p_def [symmetric])
    also from "1.IH" [OF True "1.prems"(1)] p' have "\<dots> = tree ! 0"
      by (simp add: p_def)
    finally show ?thesis .
  qed
qed


lemma leafHashes_valid:
  assumes "\<forall>v\<in>set vals. 0 \<le> snd v \<and> snd v < 2 ^ 256"
  shows "leafHashes K vals =
     Inr (map (\<lambda>v. K (to_bytes32 (K (abi_words (fst v) (snd v))))) vals)"
  using assms
proof (induction vals)
  case Nil
  then show ?case by simp
next
  case (Cons v vals)
  obtain a amt where v: "v = (a, amt)" by (cases v) auto
  from Cons show ?case
    by (simp add: v standardLeafHash_def abi_encode_def)
qed

lemma leafIndexOf_sorted:
  assumes "length hashes = N" and "i < N"
  defines "hv \<equiv> sort_key fst (zip hashes [0..<N])"
  shows "leafIndexOf hv i < N \<and> hv ! leafIndexOf hv i = (hashes ! i, i)"
proof -
  have set_hv: "set hv = set (zip hashes [0..<N])" and len_hv: "length hv = N"
    using assms(1) by (simp_all add: hv_def)
  from assms(1,2) have "(hashes ! i, i) \<in> set (zip hashes [0..<N])"
    by (auto simp: in_set_zip intro!: exI [of _ i])
  with set_hv have "\<exists>x\<in>set hv. \<not> snd x \<noteq> i" by force
  then have "takeWhile (\<lambda>x. snd x \<noteq> i) hv \<noteq> hv"
    by (simp add: takeWhile_eq_all_conv)
  with length_takeWhile_le [of "\<lambda>x. snd x \<noteq> i" hv]
  have lt: "leafIndexOf hv i < length hv"
    unfolding leafIndexOf_def
    by (metis le_neq_implies_less takeWhile_eq_take take_all_iff order_refl)
  then have "\<not> snd (hv ! leafIndexOf hv i) \<noteq> i"
    unfolding leafIndexOf_def by (rule nth_length_takeWhile)
  then have s: "snd (hv ! leafIndexOf hv i) = i" by simp
  from lt have "hv ! leafIndexOf hv i \<in> set hv" by simp
  with set_hv have "hv ! leafIndexOf hv i \<in> set (zip hashes [0..<N])" by simp
  then obtain k where "k < N" "hv ! leafIndexOf hv i = (hashes ! k, k)"
    using assms(1) by (auto simp: in_set_zip)
  with s have "hv ! leafIndexOf hv i = (hashes ! i, i)" by simp
  with lt len_hv show ?thesis by simp
qed


lemma StandardMerkleTree_of_valid:
  assumes "vals \<noteq> []" and "\<forall>v\<in>set vals. 0 \<le> snd v \<and> snd v < 2 ^ 256"
  shows "\<exists>t. StandardMerkleTree_of K vals = Inr t \<and>
           (\<forall>i<length vals - 1. tree_nodes t ! i =
              hashPair K (tree_nodes t ! leftChildIndex i) (tree_nodes t ! rightChildIndex i)) \<and>
           length (tree_index t) = length vals \<and>
           (\<forall>i<length vals.
              tree_index t ! i < 2 * length vals - 1 \<and>
              tree_nodes t ! (tree_index t ! i) =
                K (to_bytes32 (K (abi_words (fst (vals ! i)) (snd (vals ! i))))))"
proof -
  define N where "N = length vals"
  define hashes where "hashes = map (\<lambda>v. K (to_bytes32 (K (abi_words (fst v) (snd v))))) vals"
  define hv where "hv = sort_key fst (zip hashes [0..<N])"
  define leaves where "leaves = map fst hv"
  have lh: "leafHashes K vals = Inr hashes"
    unfolding hashes_def using assms(2) by (rule leafHashes_valid)
  have len_h: "length hashes = N" by (simp add: hashes_def N_def)
  have len_hv: "length hv = N" by (simp add: hv_def len_h)
  from assms(1) have N: "0 < N" by (simp add: N_def)
  with len_hv have ne: "leaves \<noteq> []" by (auto simp: leaves_def)
  have len_l: "length leaves = N" by (simp add: leaves_def len_hv)
  from makeMerkleTree_nodes [OF ne, of K] obtain nodes where
    mk: "makeMerkleTree K leaves = Inr nodes" and len_n: "length nodes = 2 * N - 1"
    and leaf: "\<forall>j<N. nodes ! (2 * N - 2 - j) = leaves ! j"
    and inv: "\<forall>i<N - 1. nodes ! i =
        hashPair K (nodes ! leftChildIndex i) (nodes ! rightChildIndex i)"
    unfolding len_l by blast
  define t where "t = \<lparr>tree_nodes = nodes,
      tree_index = map (\<lambda>valueIndex. length nodes - leafIndexOf hv valueIndex - 1) [0..<N]\<rparr>"
  have of: "StandardMerkleTree_of K vals = Inr t"
    by (simp add: StandardMerkleTree_of_def lh Let_def len_h N_def [symmetric]
        hv_def [symmetric] leaves_def [symmetric] mk t_def)
  have idx: "tree_index t ! i < 2 * N - 1 \<and>
      tree_nodes t ! (tree_index t ! i) =
        K (to_bytes32 (K (abi_words (fst (vals ! i)) (snd (vals ! i)))))"
    if i: "i < N" for i
  proof -
    from leafIndexOf_sorted [OF len_h i]
    have pos: "leafIndexOf hv i < N" and at: "hv ! leafIndexOf hv i = (hashes ! i, i)"
      unfolding hv_def by blast+
    from i have ti: "tree_index t ! i = 2 * N - 2 - leafIndexOf hv i"
      by (simp add: t_def len_n)
    from pos N have b: "2 * N - 2 - leafIndexOf hv i < 2 * N - 1" by arith
    from leaf pos have "nodes ! (2 * N - 2 - leafIndexOf hv i) = leaves ! leafIndexOf hv i"
      by blast
    also from pos have "\<dots> = fst (hv ! leafIndexOf hv i)"
      by (simp add: leaves_def len_hv)
    also from at i have "\<dots> = K (to_bytes32 (K (abi_words (fst (vals ! i)) (snd (vals ! i)))))"
      by (simp add: hashes_def N_def)
    finally show ?thesis using ti b by (simp add: t_def)
  qed
  have "length (tree_index t) = N" by (simp add: t_def)
  moreover from inv have "\<forall>i<N - 1. tree_nodes t ! i =
      hashPair K (tree_nodes t ! leftChildIndex i) (tree_nodes t ! rightChildIndex i)"
    by (simp add: t_def)
  ultimately show ?thesis
    using of idx unfolding N_def by blast
qed

lemma tree_getProof_valid:
  assumes "\<forall>i<N - 1. tree_nodes t ! i =
      hashPair K (tree_nodes t ! leftChildIndex i) (tree_nodes t ! rightChildIndex i)"
    and "tree_index t ! i < 2 * N - 1"
  shows "tree_getProof K t i = Inr (getProof_tree (tree_nodes t) (tree_index t ! i)) \<and>
         processProof K (tree_nodes t ! (tree_index t ! i))
           (getProof_tree (tree_nodes t) (tree_index t ! i)) = tree_root t"
  using getProof_tree_root [OF assms]
  by (simp add: tree_getProof_def tree_root_def Let_def)

lemma collect_proofs_valid:
  assumes "\<forall>j<length rest. tree_getProof K t (i + j) = Inr (P (i + j))"
    and "distinct (map entry_address rest)"
  shows "\<exists>m'. collect_proofs K t rest i m = Inr m' \<and>
           (\<forall>j<length rest. m' (entry_address (rest ! j)) = Some (P (i + j))) \<and>
           (\<forall>a. a \<notin> entry_address ` set rest \<longrightarrow> m' a = m a)"
  using assms
proof (induction rest arbitrary: i m)
  case Nil
  then show ?case by simp
next
  case (Cons r rest)
  from Cons.prems(1) have here: "tree_getProof K t i = Inr (P i)"
    by force
  have later: "\<forall>j<length rest. tree_getProof K t (Suc i + j) = Inr (P (Suc i + j))"
  proof (intro allI impI)
    fix j assume "j < length rest"
    with Cons.prems(1) have "tree_getProof K t (i + Suc j) = Inr (P (i + Suc j))"
      by (metis Suc_less_eq length_Cons)
    then show "tree_getProof K t (Suc i + j) = Inr (P (Suc i + j))" by simp
  qed
  from Cons.prems(2) have d: "distinct (map entry_address rest)"
    and fresh: "entry_address r \<notin> entry_address ` set rest"
    by auto
  from Cons.IH [OF later d, of "m(entry_address r \<mapsto> P i)"] obtain m' where
    run: "collect_proofs K t rest (Suc i) (m(entry_address r \<mapsto> P i)) = Inr m'"
    and found: "\<forall>j<length rest. m' (entry_address (rest ! j)) = Some (P (Suc i + j))"
    and keep: "\<forall>a. a \<notin> entry_address ` set rest \<longrightarrow> m' a = (m(entry_address r \<mapsto> P i)) a"
    by blast
  from here run have r1: "collect_proofs K t (r # rest) i m = Inr m'" by simp
  have r2: "m' (entry_address ((r # rest) ! j)) = Some (P (i + j))" if "j < length (r # rest)" for j
  proof (cases j)
    case 0
    with keep fresh show ?thesis by simp
  next
    case (Suc k)
    with that found show ?thesis by simp
  qed
  have r3: "m' a = m a" if "a \<notin> entry_address ` set (r # rest)" for a
    using that keep by simp
  from r1 r2 r3 show ?case by blast
qed

lemma verify_processProof:
  assumes "0 \<le> amount" and "amount < 2 ^ 256"
  shows "verify K root account amount merkleProof =
     Inr (processProof K (K (abi_words account amount)) merkleProof = root)"
proof -
  have "(\<lambda>computedHash proofElement.
           if computedHash < proofElement
           then K (to_bytes32 computedHash @ to_bytes32 proofElement)
           else K (to_bytes32 proofElement @ to_bytes32 computedHash)) = hashPair K"
    by (intro ext) (auto simp: hashPair_def min_def max_def)
  with assms show ?thesis
    by (simp add: verify_def abi_encode_def processProof_def)
qed


text \<open>
  For every non-empty list of rewards with pairwise distinct addresses and amounts within
  \<^verbatim>\<open>uint256\<close>, \<open>generate\<close> succeeds and stores a proof for every entry. Folded over the
  leaf of the tree, the encoded entry hashed twice, the proof gives the root. \<open>verify\<close> folds
  it over the encoded entry hashed once, and so answers true exactly when that gives the root
  as well.
\<close>

theorem generated_proofs:
  assumes "rewards \<noteq> []"
    and "\<forall>r\<in>set rewards. 0 \<le> entry_amount r \<and> entry_amount r < 2 ^ 256"
    and "distinct (map entry_address rewards)"
  shows "\<exists>result.
           generate K rewards = Inr result \<and>
           (\<forall>r\<in>set rewards. \<exists>merkleProof.
              getProof result (entry_address r) = Some merkleProof \<and>
              processProof K
                (K (to_bytes32 (K (abi_words (entry_address r) (entry_amount r)))))
                merkleProof = result_root result \<and>
              verify K (result_root result) (entry_address r) (entry_amount r) merkleProof =
                Inr (processProof K (K (abi_words (entry_address r) (entry_amount r)))
                       merkleProof = result_root result))"
proof -
  define vals where "vals = map (\<lambda>r. (entry_address r, entry_amount r)) rewards"
  define N where "N = length rewards"
  from assms(1) have ne: "vals \<noteq> []" by (simp add: vals_def)
  from assms(2) have ok: "\<forall>v\<in>set vals. 0 \<le> snd v \<and> snd v < 2 ^ 256"
    by (auto simp: vals_def)
  have len: "length vals = N" by (simp add: vals_def N_def)
  from StandardMerkleTree_of_valid [OF ne ok, of K] obtain t where
    of: "StandardMerkleTree_of K vals = Inr t"
    and inv: "\<forall>i<N - 1. tree_nodes t ! i =
        hashPair K (tree_nodes t ! leftChildIndex i) (tree_nodes t ! rightChildIndex i)"
    and idx: "\<forall>i<N. tree_index t ! i < 2 * N - 1 \<and>
        tree_nodes t ! (tree_index t ! i) =
          K (to_bytes32 (K (abi_words (fst (vals ! i)) (snd (vals ! i)))))"
    unfolding len by blast
  define P where "P = (\<lambda>i. getProof_tree (tree_nodes t) (tree_index t ! i))"
  have gp: "tree_getProof K t i = Inr (P i) \<and>
      processProof K (tree_nodes t ! (tree_index t ! i)) (P i) = tree_root t" if "i < N" for i
    unfolding P_def using inv idx that by (intro tree_getProof_valid [of N]) blast+
  then have all: "\<forall>j<length rewards. tree_getProof K t (0 + j) = Inr (P (0 + j))"
    by (simp add: N_def)
  from collect_proofs_valid [OF all assms(3), of Map.empty] obtain m where
    cp: "collect_proofs K t rewards 0 Map.empty = Inr m"
    and found: "\<forall>j<length rewards. m (entry_address (rewards ! j)) = Some (P j)"
    by auto
  define result where "result =
      \<lparr>result_root = tree_root t, result_proofs = m, result_entries = rewards\<rparr>"
  from assms(1) of cp have gen: "generate K rewards = Inr result"
    by (simp add: generate_def vals_def [symmetric] result_def)
  have each: "\<exists>merkleProof.
        getProof result (entry_address r) = Some merkleProof \<and>
        processProof K (K (to_bytes32 (K (abi_words (entry_address r) (entry_amount r)))))
          merkleProof = result_root result \<and>
        verify K (result_root result) (entry_address r) (entry_amount r) merkleProof =
          Inr (processProof K (K (abi_words (entry_address r) (entry_amount r)))
                 merkleProof = result_root result)"
    if r: "r \<in> set rewards" for r
  proof -
    from r obtain j where j: "j < N" and rj: "rewards ! j = r"
      by (auto simp: in_set_conv_nth N_def)
    from found j rj have g: "getProof result (entry_address r) = Some (P j)"
      by (auto simp: getProof_def result_def N_def)
    from j rj have v: "vals ! j = (entry_address r, entry_amount r)"
      by (simp add: vals_def N_def)
    from gp [OF j] idx j v
    have pp: "processProof K
        (K (to_bytes32 (K (abi_words (entry_address r) (entry_amount r))))) (P j) =
        result_root result"
      by (simp add: result_def)
    from assms(2) r have "0 \<le> entry_amount r" "entry_amount r < 2 ^ 256" by blast+
    then have "verify K (result_root result) (entry_address r) (entry_amount r) (P j) =
        Inr (processProof K (K (abi_words (entry_address r) (entry_amount r))) (P j) =
             result_root result)"
      by (rule verify_processProof)
    with g pp show ?thesis by blast
  qed
  from gen each show ?thesis by blast
qed

theorem generated_proofs_witness:
  "[example_entry] \<noteq> [] \<and>
   0 \<le> entry_amount example_entry \<and> entry_amount example_entry < 2 ^ 256 \<and>
   distinct (map entry_address [example_entry]) \<and>
   map_sum id result_root (generate toy_keccak256 [example_entry]) = Inr 103 \<and>
   map_sum id (\<lambda>result. getProof result 1) (generate toy_keccak256 [example_entry]) =
     Inr (Some []) \<and>
   toy_keccak256 (abi_words 1 100) = 102 \<and>
   toy_keccak256 (to_bytes32 (toy_keccak256 (abi_words 1 100))) = 103 \<and>
   verify toy_keccak256 103 1 100 [] = Inr False"
proof -
  have ne: "[example_entry] \<noteq> []" by simp
  have ok: "\<forall>r\<in>set [example_entry]. 0 \<le> entry_amount r \<and> entry_amount r < 2 ^ 256"
    and d: "distinct (map entry_address [example_entry])"
    and a: "entry_address example_entry = 1" and b: "entry_amount example_entry = 100"
    by (simp_all add: example_entry_def)
  have k1: "toy_keccak256 (abi_words 1 100) = 102"
    by (simp add: toy_keccak256_def abi_words_def to_bytes32_def upt_rec)
  have k2: "toy_keccak256 (to_bytes32 102) = 103"
    by (simp add: toy_keccak256_def to_bytes32_def upt_rec)
  from generated_proofs [OF ne ok d, of toy_keccak256] obtain result merkleProof where
    gen: "generate toy_keccak256 [example_entry] = Inr result"
    and gp: "getProof result 1 = Some merkleProof"
    and pp: "processProof toy_keccak256 103 merkleProof = result_root result"
    and vf: "verify toy_keccak256 (result_root result) 1 100 merkleProof =
        Inr (processProof toy_keccak256 102 merkleProof = result_root result)"
    by (auto simp: a b k1 k2)
  have ev: "generate toy_keccak256 [example_entry] =
      Inr \<lparr>result_root = 103, result_proofs = [1 \<mapsto> []], result_entries = [example_entry]\<rparr>"
    by (simp add: generate_def StandardMerkleTree_of_def standardLeafHash_def abi_encode_def
        makeMerkleTree_def tree_getProof_def tree_root_def processProof_def leafIndexOf_def
        a b k1 k2 Let_def)
  with gen have res: "result =
      \<lparr>result_root = 103, result_proofs = [1 \<mapsto> []], result_entries = [example_entry]\<rparr>"
    by simp
  with gp have mp: "merkleProof = []" by (simp add: getProof_def)
  from vf have v: "verify toy_keccak256 103 1 100 [] = Inr False"
    by (simp add: res mp processProof_def)
  from ne ok d k1 k2 v show ?thesis
    by (simp add: ev getProof_def)
qed

end
